theory Spec2Isabelle
  imports Main
begin

section \<open>The extension catalog model (VSXExtensionsModel)\<close>

text \<open>
  A shallow embedding of the class \<^verbatim>\<open>VSXExtensionsModel\<close>. The class is asynchronous: every
  method runs until it awaits a call of the registry client (\<^verbatim>\<open>search\<close>, \<^verbatim>\<open>getExtension\<close>,
  \<^verbatim>\<open>fetchText\<close>) or until the debounce timer is armed, and is resumed when that call settles or
  the timer fires. Each method is therefore split at these points: the part that runs when
  the method is called, and one function (\<open>_resume\<close>) per external await, which takes the
  settled value of the awaited call (\<open>Inl\<close> a rejection, \<open>Inr\<close> a value). Awaits of promises
  of the class itself (\<^verbatim>\<open>await task()\<close>, \<^verbatim>\<open>await this.refresh(id)\<close>) continue in the same
  turn of the job queue and are not split. The order in which the registry answers is left
  open: any resume function can be applied to any state.
\<close>

subsection \<open>Extension records\<close>

datatype val = Str string | Bool bool

type_synonym data = "string \<rightharpoonup> val"

record VSXExtension =
  ext_id :: string
  ext_data :: data

text \<open>
  Modelled from the spec: the factory of \<^verbatim>\<open>VSXExtension\<close> objects (\<^verbatim>\<open>vsx-extension.ts\<close>) is
  missing. A record is "created on first reference with just an id".
\<close>

definition extensionFactory :: "string \<Rightarrow> VSXExtension" where
  "extensionFactory i = \<lparr>ext_id = i, ext_data = Map.empty\<rparr>"

text \<open>
  Modelled from the spec: \<^verbatim>\<open>VSXExtension.update\<close> is missing. "Updates are merges (partial
  field sets applied onto the existing record, never a destructive replace)"; "merge is
  field-wise overwrite-if-present, not whole-object replace".
\<close>

definition update :: "VSXExtension \<Rightarrow> data \<Rightarrow> VSXExtension" where
  "update e d = e\<lparr>ext_data := ext_data e ++ d\<rparr>"

text \<open>The truth value JavaScript gives to a property in a condition.\<close>

fun truthy :: "val option \<Rightarrow> bool" where
  "truthy None = False"
| "truthy (Some (Str s)) = (s \<noteq> [])"
| "truthy (Some (Bool b)) = b"

text \<open>
  Modelled from the spec: the getters \<^verbatim>\<open>installed\<close> and \<^verbatim>\<open>readmeUrl\<close> of the missing class
  \<^verbatim>\<open>VSXExtension\<close>. The record carries "an installed boolean" and the url of its readme.
\<close>

definition installed :: "VSXExtension \<Rightarrow> bool" where
  "installed e = truthy (ext_data e ''installed'')"

definition readmeUrl :: "VSXExtension \<Rightarrow> string option" where
  "readmeUrl e = (case ext_data e ''readmeUrl'' of Some (Str u) \<Rightarrow> Some u | _ \<Rightarrow> None)"

subsection \<open>Collaborators\<close>

text \<open>What a rejected promise carries: a \<^verbatim>\<open>VSXResponseError\<close> with its status code, or any other error.\<close>

datatype error = VSXResponseError nat | Error string

definition is404 :: "error \<Rightarrow> bool" where
  "is404 e = (case e of VSXResponseError c \<Rightarrow> c = 404 | Error m \<Rightarrow> False)"

text \<open>An entry of a search response: publisher and name are strings, the other fields are optional.\<close>

record VSXSearchEntry =
  publisher :: string
  name :: string
  summary :: data

definition entry_data :: "VSXSearchEntry \<Rightarrow> data" where
  "entry_data d = (summary d)(''publisher'' \<mapsto> Str (publisher d), ''name'' \<mapsto> Str (name d))"

record plugin =
  plugin_id :: string
  engine_type :: string

datatype api_call = Search string | GetExtension string | FetchText string

datatype log_entry = FailedToRefresh string error | FailedToCompileReadme string error

text \<open>
  \<^verbatim>\<open>String.prototype.toLowerCase\<close> on the letters A to Z; a \<open>char\<close> is a byte, and the bytes
  outside that range are left as they are.
\<close>

definition toLowerCase_char :: "char \<Rightarrow> char" where
  "toLowerCase_char c =
     (let n = (of_char c :: nat) in if 65 \<le> n \<and> n \<le> 90 then char_of (n + 32) else c)"

definition toLowerCase :: "string \<Rightarrow> string" where
  "toLowerCase s = map toLowerCase_char s"

text \<open>A JavaScript \<^verbatim>\<open>Set\<close> of strings: no duplicates, iterated in insertion order.\<close>

definition Set_add :: "string list \<Rightarrow> string \<Rightarrow> string list" where
  "Set_add xs x = (if x \<in> set xs then xs else xs @ [x])"

definition Set_delete :: "string list \<Rightarrow> string \<Rightarrow> string list" where
  "Set_delete xs x = removeAll x xs"

subsection \<open>The state of the model\<close>

text \<open>
  The fields of the class (\<open>p_query\<close>, \<open>p_installed\<close> and \<open>p_searchResult\<close> are the protected
  \<^verbatim>\<open>_query\<close>, \<^verbatim>\<open>_installed\<close> and \<^verbatim>\<open>_searchResult\<close>), and what its collaborators hold for it:
  \<^item> Modelled from the spec: \<^verbatim>\<open>CancellationTokenSource\<close> is missing. An epoch token is "a
    cancellation handle scoping one search cycle". Sources are numbered in the order of
    their creation; \<open>cancelled\<close> holds the sources whose \<^verbatim>\<open>cancel()\<close> was called.
  \<^item> Modelled from the spec: \<^verbatim>\<open>Emitter\<close> is missing. \<open>onDidChangeEmitter\<close> counts the calls of
    its \<^verbatim>\<open>fire\<close>, \<open>onDidChangeQueryEmitter\<close> lists the values fired, in order.
  \<^item> Modelled from the spec: the debounce wrapper (\<^verbatim>\<open>p-debounce\<close>) is missing. \<open>timer\<close> is the
    time left of the quiescence window, when one is open.
  \<^item> \<open>console\<close> lists the calls of \<^verbatim>\<open>console.error\<close>, \<open>api\<close> the calls made to the registry
    client, in order.
\<close>

record VSXExtensionsModel =
  p_query :: string
  extensions :: "string \<rightharpoonup> VSXExtension"
  p_installed :: "string list"
  p_searchResult :: "string list"
  searchCancellationTokenSource :: nat
  cancelled :: "nat set"
  sources :: nat
  timer :: "nat option"
  onDidChangeEmitter :: nat
  onDidChangeQueryEmitter :: "string list"
  console :: "log_entry list"
  api :: "api_call list"

datatype token = TokenNone | Token nat

fun isCancellationRequested :: "VSXExtensionsModel \<Rightarrow> token \<Rightarrow> bool" where
  "isCancellationRequested s TokenNone = False"
| "isCancellationRequested s (Token n) = (n \<in> cancelled s)"

subsection \<open>The record store\<close>

definition getExtension :: "VSXExtensionsModel \<Rightarrow> string \<Rightarrow> VSXExtension option" where
  "getExtension s i = extensions s i"

definition setExtension :: "VSXExtensionsModel \<Rightarrow> string \<Rightarrow> VSXExtensionsModel \<times> VSXExtension" where
  "setExtension s i =
     (case extensions s i of
        Some e \<Rightarrow> (s, e)
      | None \<Rightarrow> (let e = extensionFactory i in (s\<lparr>extensions := (extensions s)(i \<mapsto> e)\<rparr>, e)))"

text \<open>
  The objects of the store are shared: \<^verbatim>\<open>extension.update(data)\<close> on the object that the
  store holds under \<open>i\<close> changes what the store holds there. The callers hold an object
  that they took from the store, and the store never drops one; \<open>update_at\<close> leaves a
  state without such an object as it is.
\<close>

definition update_at :: "VSXExtensionsModel \<Rightarrow> string \<Rightarrow> data \<Rightarrow> VSXExtensionsModel" where
  "update_at s i d =
     (case extensions s i of
        Some e \<Rightarrow> s\<lparr>extensions := (extensions s)(i \<mapsto> update e d)\<rparr>
      | None \<Rightarrow> s)"

text \<open>\<^verbatim>\<open>this.setExtension(id).update(data)\<close>\<close>

definition upsert :: "VSXExtensionsModel \<Rightarrow> string \<Rightarrow> data \<Rightarrow> VSXExtensionsModel" where
  "upsert s i d = update_at (fst (setExtension s i)) i d"

subsection \<open>doChange\<close>

text \<open>
  Modelled from the spec: \<^verbatim>\<open>ProgressService.withProgress\<close> is missing; it "must not alter
  operation semantics or error propagation", so it is left out. \<open>doChange_settle\<close> is the
  part of \<^verbatim>\<open>doChange\<close> that follows \<^verbatim>\<open>await task()\<close>: a rejection of the task is the
  rejection of \<^verbatim>\<open>doChange\<close>.
\<close>

definition doChange_settle ::
  "token \<Rightarrow> VSXExtensionsModel \<times> (error + 'a) \<Rightarrow> VSXExtensionsModel \<times> (error + 'a option)" where
  "doChange_settle tok r =
     (case r of
        (s, Inl e) \<Rightarrow> (s, Inl e)
      | (s, Inr v) \<Rightarrow>
          if isCancellationRequested s tok then (s, Inr None)
          else (s\<lparr>onDidChangeEmitter := Suc (onDidChangeEmitter s)\<rparr>, Inr (Some v)))"

text \<open>\<^verbatim>\<open>doChange\<close> of a task that awaits no external call.\<close>

definition doChange ::
  "(VSXExtensionsModel \<Rightarrow> VSXExtensionsModel \<times> (error + 'a)) \<Rightarrow> token \<Rightarrow> VSXExtensionsModel
     \<Rightarrow> VSXExtensionsModel \<times> (error + 'a option)" where
  "doChange task tok s =
     (if isCancellationRequested s tok then (s, Inr None) else doChange_settle tok (task s))"

subsection \<open>Search\<close>

definition search_id :: "VSXSearchEntry \<Rightarrow> string" where
  "search_id d = toLowerCase (publisher d) @ ''.'' @ toLowerCase (name d)"

fun search_loop ::
  "VSXSearchEntry list \<Rightarrow> VSXExtensionsModel \<times> string list \<Rightarrow> VSXExtensionsModel \<times> string list" where
  "search_loop [] (s, searchResult) = (s, searchResult)"
| "search_loop (d # ds) (s, searchResult) =
     (let i = search_id d
      in search_loop ds (upsert s i (entry_data d), Set_add searchResult i))"

text \<open>
  \<^verbatim>\<open>doUpdateSearchResult\<close> up to \<^verbatim>\<open>await this.api.search(param)\<close>; the second component is
  \<open>None\<close> while the promise is pending.
\<close>

definition doUpdateSearchResult ::
  "VSXExtensionsModel \<Rightarrow> string \<Rightarrow> token
     \<Rightarrow> VSXExtensionsModel \<times> (error + unit option) option" where
  "doUpdateSearchResult s param tok =
     (if isCancellationRequested s tok then (s, Some (Inr None))
      else (s\<lparr>api := api s @ [Search param]\<rparr>, None))"

definition doUpdateSearchResult_task ::
  "VSXExtensionsModel \<Rightarrow> token \<Rightarrow> error + VSXSearchEntry list \<Rightarrow> VSXExtensionsModel \<times> (error + unit)" where
  "doUpdateSearchResult_task s tok resp =
     (case resp of
        Inl e \<Rightarrow> (s, Inl e)
      | Inr result \<Rightarrow>
          if isCancellationRequested s tok then (s, Inr ())
          else (let (s', searchResult) = search_loop result (s, [])
                in (s'\<lparr>p_searchResult := searchResult\<rparr>, Inr ())))"

text \<open>\<^verbatim>\<open>doUpdateSearchResult\<close> from the moment \<^verbatim>\<open>api.search\<close> settles with \<open>resp\<close>.\<close>

definition doUpdateSearchResult_resume ::
  "VSXExtensionsModel \<Rightarrow> token \<Rightarrow> error + VSXSearchEntry list
     \<Rightarrow> VSXExtensionsModel \<times> (error + unit option)" where
  "doUpdateSearchResult_resume s tok resp = doChange_settle tok (doUpdateSearchResult_task s tok resp)"

text \<open>The function that \<^verbatim>\<open>debounce\<close> wraps: it runs when the window has elapsed.\<close>

definition updateSearchResult_fn ::
  "VSXExtensionsModel \<Rightarrow> VSXExtensionsModel \<times> (error + unit option) option" where
  "updateSearchResult_fn s =
     (let s1 = s\<lparr>cancelled := insert (searchCancellationTokenSource s) (cancelled s)\<rparr>;
          s2 = s1\<lparr>searchCancellationTokenSource := sources s1, sources := Suc (sources s1)\<rparr>
      in doUpdateSearchResult s2 (p_query s2) (Token (searchCancellationTokenSource s2)))"

text \<open>
  Modelled from the spec: a call of the debounced \<^verbatim>\<open>updateSearchResult\<close>. "Any query
  mutation that arrives before the window elapses restarts the window"; the window is 150
  time units.
\<close>

definition updateSearchResult :: "VSXExtensionsModel \<Rightarrow> VSXExtensionsModel" where
  "updateSearchResult s = s\<lparr>timer := Some 150\<rparr>"

text \<open>
  Modelled from the spec: \<open>dt\<close> time units pass. "After a fixed quiescence window with no
  further mutation", the wrapped function runs, once.
\<close>

definition elapse :: "VSXExtensionsModel \<Rightarrow> nat \<Rightarrow> VSXExtensionsModel" where
  "elapse s dt =
     (case timer s of
        None \<Rightarrow> s
      | Some r \<Rightarrow>
          if dt < r then s\<lparr>timer := Some (r - dt)\<rparr>
          else fst (updateSearchResult_fn (s\<lparr>timer := None\<rparr>)))"

subsection \<open>The query\<close>

text \<open>
  \<^verbatim>\<open>onDidChangeQueryEmitter.fire\<close>: the listener that \<^verbatim>\<open>init\<close> registers calls the debounced
  \<^verbatim>\<open>updateSearchResult\<close>.
\<close>

definition onDidChangeQueryEmitter_fire :: "VSXExtensionsModel \<Rightarrow> string \<Rightarrow> VSXExtensionsModel" where
  "onDidChangeQueryEmitter_fire s v =
     updateSearchResult (s\<lparr>onDidChangeQueryEmitter := onDidChangeQueryEmitter s @ [v]\<rparr>)"

definition set_query :: "VSXExtensionsModel \<Rightarrow> string \<Rightarrow> VSXExtensionsModel" where
  "set_query s q =
     (if p_query s = q then s
      else (let s1 = s\<lparr>p_query := q\<rparr> in onDidChangeQueryEmitter_fire s1 (p_query s1)))"

subsection \<open>Refresh and resolve\<close>

text \<open>\<^verbatim>\<open>refresh\<close> up to \<^verbatim>\<open>await this.api.getExtension(id)\<close>.\<close>

definition refresh :: "VSXExtensionsModel \<Rightarrow> string \<Rightarrow> VSXExtensionsModel" where
  "refresh s i = s\<lparr>api := api s @ [GetExtension i]\<rparr>"

text \<open>\<^verbatim>\<open>refresh\<close> from the moment \<^verbatim>\<open>api.getExtension\<close> settles with \<open>resp\<close>.\<close>

definition refresh_resume ::
  "VSXExtensionsModel \<Rightarrow> string \<Rightarrow> error + data
     \<Rightarrow> VSXExtensionsModel \<times> (error + VSXExtension option)" where
  "refresh_resume s i resp =
     (case resp of
        Inr d \<Rightarrow>
          (let s1 = upsert s i d in (s1, Inr (getExtension s1 i)))
      | Inl e \<Rightarrow>
          if is404 e then
            (case getExtension s i of
               Some extension \<Rightarrow> if installed extension then (s, Inr (Some extension)) else (s, Inr None)
             | None \<Rightarrow> (s, Inr None))
          else (s\<lparr>console := console s @ [FailedToRefresh i e]\<rparr>, Inr None))"

text \<open>\<^verbatim>\<open>resolve\<close> up to the first external await, inside \<^verbatim>\<open>refresh\<close>.\<close>

definition resolve ::
  "VSXExtensionsModel \<Rightarrow> string \<Rightarrow> VSXExtensionsModel \<times> (error + VSXExtension option) option" where
  "resolve s i =
     (if isCancellationRequested s TokenNone then (s, Some (Inr None)) else (refresh s i, None))"

text \<open>
  \<^verbatim>\<open>resolve\<close> from the moment \<^verbatim>\<open>api.getExtension\<close> settles, up to
  \<^verbatim>\<open>await this.api.fetchText(extension.readmeUrl)\<close> when the record has a readme url.
\<close>

definition resolve_resume ::
  "VSXExtensionsModel \<Rightarrow> string \<Rightarrow> error + data
     \<Rightarrow> VSXExtensionsModel \<times> (error + VSXExtension option) option" where
  "resolve_resume s i resp =
     (case refresh_resume s i resp of
        (s1, Inl e) \<Rightarrow> (let (s2, r) = doChange_settle TokenNone (s1, Inl e) in (s2, Some r))
      | (s1, Inr None) \<Rightarrow>
          (let (s2, r) = doChange_settle TokenNone
                           (s1, Inl (Error (''Failed to resolve '' @ i @ '' extension.'')))
           in (s2, Some r))
      | (s1, Inr (Some extension)) \<Rightarrow>
          (case readmeUrl extension of
             Some u \<Rightarrow>
               if u \<noteq> [] then (s1\<lparr>api := api s1 @ [FetchText u]\<rparr>, None)
               else (let (s2, r) = doChange_settle TokenNone (s1, Inr extension) in (s2, Some r))
           | None \<Rightarrow> (let (s2, r) = doChange_settle TokenNone (s1, Inr extension) in (s2, Some r))))"

text \<open>
  \<^verbatim>\<open>resolve\<close> from the moment \<^verbatim>\<open>api.fetchText\<close> settles with \<open>resp\<close>. \<open>compileReadme\<close> is the
  markdown pipeline (converter and sanitizer), which may throw. The captured \<^verbatim>\<open>extension\<close>
  is the object that the store holds under \<open>i\<close>: \<^verbatim>\<open>refresh\<close> returned it from there, and
  the store never drops a record, so the last branch of \<open>resolve_resume_readme\<close> is not
  reached after \<open>resolve_resume\<close>.
\<close>

definition resolve_readme ::
  "(string \<Rightarrow> error + string) \<Rightarrow> VSXExtensionsModel \<Rightarrow> string \<Rightarrow> error + string
     \<Rightarrow> VSXExtensionsModel" where
  "resolve_readme compileReadme s i resp =
     (case (case resp of Inl e \<Rightarrow> Inl e | Inr rawReadme \<Rightarrow> compileReadme rawReadme) of
        Inr readme \<Rightarrow> update_at s i [''readme'' \<mapsto> Str readme]
      | Inl e \<Rightarrow>
          if \<not> is404 e then s\<lparr>console := console s @ [FailedToCompileReadme i e]\<rparr> else s)"

definition resolve_resume_readme ::
  "(string \<Rightarrow> error + string) \<Rightarrow> VSXExtensionsModel \<Rightarrow> string \<Rightarrow> error + string
     \<Rightarrow> VSXExtensionsModel \<times> (error + VSXExtension option)" where
  "resolve_resume_readme compileReadme s i resp =
     (let s1 = resolve_readme compileReadme s i resp
      in case getExtension s1 i of
           Some extension \<Rightarrow> doChange_settle TokenNone (s1, Inr extension)
         | None \<Rightarrow> (s1, Inr None))"

subsection \<open>The installed set\<close>

fun updateInstalled_loop ::
  "plugin list \<Rightarrow> VSXExtensionsModel \<times> string list \<Rightarrow> VSXExtensionsModel \<times> string list" where
  "updateInstalled_loop [] (s, new_installed) = (s, new_installed)"
| "updateInstalled_loop (p # ps) (s, new_installed) =
     (if engine_type p = ''vscode'' then
        (let i = plugin_id p;
             s1 = s\<lparr>p_installed := Set_delete (p_installed s) i\<rparr>;
             (s2, extension) = setExtension s1 i
         in updateInstalled_loop ps (refresh s2 i, Set_add new_installed (ext_id extension)))
      else updateInstalled_loop ps (s, new_installed))"

definition updateInstalled_task ::
  "plugin list \<Rightarrow> VSXExtensionsModel \<Rightarrow> VSXExtensionsModel \<times> (error + unit)" where
  "updateInstalled_task plugins s =
     (let (s1, new_installed) = updateInstalled_loop plugins (s, []);
          s2 = foldl refresh s1 (p_installed s1)
      in (s2\<lparr>p_installed := new_installed\<rparr>, Inr ()))"

definition updateInstalled ::
  "VSXExtensionsModel \<Rightarrow> plugin list \<Rightarrow> VSXExtensionsModel \<times> (error + unit option)" where
  "updateInstalled s plugins = doChange (updateInstalled_task plugins) TokenNone s"

subsection \<open>Runs of the model\<close>

definition initial :: VSXExtensionsModel where
  "initial =
     \<lparr>p_query = [], extensions = Map.empty, p_installed = [], p_searchResult = [],
      searchCancellationTokenSource = 0, cancelled = {}, sources = 1, timer = None,
      onDidChangeEmitter = 0, onDidChangeQueryEmitter = [], console = [], api = []\<rparr>"

text \<open>\<^verbatim>\<open>init\<close>, given the plugins that the host reports at that time.\<close>

definition init :: "plugin list \<Rightarrow> VSXExtensionsModel" where
  "init plugins = updateSearchResult (fst (updateInstalled initial plugins))"

text \<open>
  What can happen to the model after \<^verbatim>\<open>init\<close>: a client writes the query or asks for a
  record, time passes, the host reports a change of its plugins, a call of the registry
  client settles.
\<close>

datatype event =
    SetQuery string
  | Elapse nat
  | PluginsChanged "plugin list"
  | Resolve string
  | SearchSettled nat "error + VSXSearchEntry list"
  | RefreshSettled string "error + data"
  | ResolveSettled string "error + data"
  | ReadmeSettled string "error + string"

fun step :: "(string \<Rightarrow> error + string) \<Rightarrow> VSXExtensionsModel \<Rightarrow> event \<Rightarrow> VSXExtensionsModel" where
  "step cr s (SetQuery q) = set_query s q"
| "step cr s (Elapse dt) = elapse s dt"
| "step cr s (PluginsChanged ps) = fst (updateInstalled s ps)"
| "step cr s (Resolve i) = fst (resolve s i)"
| "step cr s (SearchSettled n resp) = fst (doUpdateSearchResult_resume s (Token n) resp)"
| "step cr s (RefreshSettled i resp) = fst (refresh_resume s i resp)"
| "step cr s (ResolveSettled i resp) = fst (resolve_resume s i resp)"
| "step cr s (ReadmeSettled i resp) = fst (resolve_resume_readme cr s i resp)"

definition run ::
  "(string \<Rightarrow> error + string) \<Rightarrow> VSXExtensionsModel \<Rightarrow> event list \<Rightarrow> VSXExtensionsModel" where
  "run cr s evs = foldl (step cr) s evs"

inductive reachable :: "(string \<Rightarrow> error + string) \<Rightarrow> VSXExtensionsModel \<Rightarrow> bool"
  for cr :: "string \<Rightarrow> error + string" where
  reachable_init: "reachable cr (init plugins)"
| reachable_step: "reachable cr s \<Longrightarrow> reachable cr (step cr s ev)"

subsection \<open>Invariants and auxiliary notions\<close>

text \<open>Every record of the store is held under its own id.\<close>

definition store_ok :: "VSXExtensionsModel \<Rightarrow> bool" where
  "store_ok s = (\<forall>i e. extensions s i = Some e \<longrightarrow> ext_id e = i)"

text \<open>
  The current token source is the last one created and is not cancelled; every source
  created before it is cancelled.
\<close>

definition tokens_ok :: "VSXExtensionsModel \<Rightarrow> bool" where
  "tokens_ok s =
     (searchCancellationTokenSource s < sources s \<and>
      searchCancellationTokenSource s \<notin> cancelled s \<and>
      (\<forall>n. n < sources s \<and> n \<noteq> searchCancellationTokenSource s \<longrightarrow> n \<in> cancelled s) \<and>
      (\<forall>n. n \<in> cancelled s \<longrightarrow> n < sources s))"

text \<open>
  The fields that the entries of a search response with id \<open>i\<close> give, merged in the order
  of the response.
\<close>

definition merged :: "string \<Rightarrow> VSXSearchEntry list \<Rightarrow> data" where
  "merged i result = foldl (++) Map.empty (map entry_data (filter (\<lambda>d. search_id d = i) result))"

text \<open>The ids of the plugins that the host reports with the engine type of this catalog.\<close>

definition vscode_ids :: "plugin list \<Rightarrow> string list" where
  "vscode_ids plugins = map plugin_id (filter (\<lambda>p. engine_type p = ''vscode'') plugins)"

text \<open>
  A sequence of query mutations: each entry is the time that has passed since the previous
  mutation, less than the window, and the value written, which differs from the value
  before.
\<close>

fun mutations :: "string \<Rightarrow> (nat \<times> string) list \<Rightarrow> bool" where
  "mutations q [] = True"
| "mutations q ((dt, q') # ws) = (dt < 150 \<and> q' \<noteq> q \<and> mutations q' ws)"

fun writes :: "VSXExtensionsModel \<Rightarrow> (nat \<times> string) list \<Rightarrow> VSXExtensionsModel" where
  "writes s [] = s"
| "writes s ((dt, q) # ws) = writes (set_query (elapse s dt) q) ws"

text \<open>The calls of \<^verbatim>\<open>api.search\<close> made so far: one per search cycle that has executed.\<close>

definition searches :: "VSXExtensionsModel \<Rightarrow> string list" where
  "searches s = concat (map (\<lambda>c. case c of Search q \<Rightarrow> [q] | _ \<Rightarrow> []) (api s))"

subsection \<open>Example states\<close>

text \<open>A store with an installed record and a record that is not installed.\<close>

definition example_store :: VSXExtensionsModel where
  "example_store =
     upsert (upsert initial ''acme.foo'' [''installed'' \<mapsto> Bool True])
       ''acme.bar'' [''version'' \<mapsto> Str ''1.0'']"

text \<open>Two entries of a search response.\<close>

definition foo_entry :: VSXSearchEntry where
  "foo_entry = \<lparr>publisher = ''Acme'', name = ''Foo'', summary = [''version'' \<mapsto> Str ''1.0'']\<rparr>"

definition foobar_entry :: VSXSearchEntry where
  "foobar_entry = \<lparr>publisher = ''acme'', name = ''FooBar'', summary = [''description'' \<mapsto> Str ''x'']\<rparr>"

text \<open>
  A run in which a search cycle (token 1) is superseded by a second one (token 2), whose
  response has arrived.
\<close>

definition example_run :: VSXExtensionsModel where
  "example_run =
     run Inr (fst (updateSearchResult_fn
       (run Inr (fst (updateSearchResult_fn (set_query (init []) ''fo''))) [SetQuery ''foo''])))
       [SearchSettled 2 (Inr [foo_entry])]"

text \<open>A search cycle that has just started, with token 1.\<close>

definition example_cycle :: VSXExtensionsModel where
  "example_cycle = fst (updateSearchResult_fn (set_query (init []) ''foo''))"

text \<open>A host report, and a state whose installed set is from an earlier report.\<close>

definition example_plugins :: "plugin list" where
  "example_plugins =
     [\<lparr>plugin_id = ''acme.foo'', engine_type = ''vscode''\<rparr>,
      \<lparr>plugin_id = ''theia.builtin'', engine_type = ''theiaPlugin''\<rparr>,
      \<lparr>plugin_id = ''acme.new'', engine_type = ''vscode''\<rparr>]"

definition example_installed :: VSXExtensionsModel where
  "example_installed = example_store\<lparr>p_installed := [''acme.old'', ''acme.foo'']\<rparr>"

text \<open>
  A markdown pipeline that fails on an empty readme, the detail of an extension with a
  readme url, and the state after \<^verbatim>\<open>resolve\<close> has fetched and stored its readme.
\<close>

definition example_compileReadme :: "string \<Rightarrow> error + string" where
  "example_compileReadme rawReadme =
     (if rawReadme = [] then Inl (Error ''empty'') else Inr rawReadme)"

definition example_detail :: data where
  "example_detail = [''readmeUrl'' \<mapsto> Str ''https://open-vsx.org/api/acme/foo/file/README.md'']"

definition example_resolved :: VSXExtensionsModel where
  "example_resolved =
     fst (resolve_resume_readme example_compileReadme
            (fst (resolve_resume initial ''acme.foo'' (Inr example_detail)))
            ''acme.foo'' (Inr ''<p>old</p>''))"

section \<open>Properties\<close>

subsection \<open>The record store\<close>

lemma setExtension_extensions:
  "extensions (fst (setExtension s i)) =
     (case extensions s i of
        Some e \<Rightarrow> extensions s
      | None \<Rightarrow> (extensions s)(i \<mapsto> extensionFactory i))"
  by (simp add: setExtension_def Let_def split: option.splits)

lemma setExtension_snd:
  "snd (setExtension s i) = (case extensions s i of Some e \<Rightarrow> e | None \<Rightarrow> extensionFactory i)"
  by (simp add: setExtension_def Let_def split: option.splits)

lemma setExtension_frame:
  "fst (setExtension s i) = s\<lparr>extensions := extensions (fst (setExtension s i))\<rparr>"
  by (simp add: setExtension_def Let_def split: option.splits)

lemma upsert_extensions:
  "extensions (upsert s i d) =
     (extensions s)
       (i \<mapsto> update (case extensions s i of Some e \<Rightarrow> e | None \<Rightarrow> extensionFactory i) d)"
  by (auto simp add: upsert_def update_at_def setExtension_def Let_def split: option.splits)

lemma upsert_frame: "upsert s i d = s\<lparr>extensions := extensions (upsert s i d)\<rparr>"
  by (simp add: upsert_def update_at_def setExtension_def Let_def split: option.splits)

lemma store_ok_upsert: "store_ok s \<Longrightarrow> store_ok (upsert s i d)"
  by (auto simp add: store_ok_def upsert_extensions update_def extensionFactory_def
      split: option.splits)

lemma store_ok_setExtension: "store_ok s \<Longrightarrow> store_ok (fst (setExtension s i))"
  by (auto simp add: store_ok_def setExtension_extensions extensionFactory_def
      split: option.splits if_splits)

lemma store_ok_update_at: "store_ok s \<Longrightarrow> store_ok (update_at s i d)"
  by (auto simp add: store_ok_def update_at_def update_def split: option.splits if_splits)

lemma example_store_foo:
  "getExtension example_store ''acme.foo'' =
     Some \<lparr>ext_id = ''acme.foo'', ext_data = [''installed'' \<mapsto> Bool True]\<rparr>"
  by (simp add: example_store_def getExtension_def upsert_extensions initial_def
      extensionFactory_def update_def)

lemma example_store_bar:
  "getExtension example_store ''acme.bar'' =
     Some \<lparr>ext_id = ''acme.bar'', ext_data = [''version'' \<mapsto> Str ''1.0'']\<rparr>"
  by (simp add: example_store_def getExtension_def upsert_extensions initial_def
      extensionFactory_def update_def)

lemma example_store_baz: "getExtension example_store ''acme.baz'' = None"
  by (simp add: example_store_def getExtension_def upsert_extensions initial_def)

subsection \<open>Frames and invariants of the operations\<close>

lemma search_loop_frame:
  "fst (search_loop ds (s, sr)) = s\<lparr>extensions := extensions (fst (search_loop ds (s, sr)))\<rparr>"
proof (induction ds arbitrary: s sr)
  case Nil
  show ?case by simp
next
  case (Cons d ds)
  have "fst (search_loop (d # ds) (s, sr)) =
          fst (search_loop ds (upsert s (search_id d) (entry_data d), Set_add sr (search_id d)))"
    by (simp add: Let_def)
  also have "\<dots> = (upsert s (search_id d) (entry_data d))
      \<lparr>extensions := extensions (fst (search_loop ds (upsert s (search_id d) (entry_data d), Set_add sr (search_id d))))\<rparr>"
    by (rule Cons.IH)
  also have "\<dots> = s\<lparr>extensions := extensions (fst (search_loop ds (upsert s (search_id d) (entry_data d), Set_add sr (search_id d))))\<rparr>"
    by (subst upsert_frame) simp
  finally show ?case by (simp add: Let_def)
qed

lemma store_ok_search_loop: "store_ok s \<Longrightarrow> store_ok (fst (search_loop ds (s, sr)))"
  by (induction ds arbitrary: s sr) (simp_all add: Let_def store_ok_upsert)

lemma search_loop_snd: "snd (search_loop ds (s, sr)) = foldl Set_add sr (map search_id ds)"
  by (induction ds arbitrary: s sr) (simp_all add: Let_def)

lemma set_foldl_Set_add: "set (foldl Set_add sr xs) = set sr \<union> set xs"
  by (induction xs arbitrary: sr) (auto simp add: Set_add_def)

lemma store_ok_upd [simp]:
  "store_ok (s\<lparr>p_query := a\<rparr>) = store_ok s"
  "store_ok (s\<lparr>p_installed := b\<rparr>) = store_ok s"
  "store_ok (s\<lparr>p_searchResult := c\<rparr>) = store_ok s"
  "store_ok (s\<lparr>searchCancellationTokenSource := d\<rparr>) = store_ok s"
  "store_ok (s\<lparr>cancelled := e\<rparr>) = store_ok s"
  "store_ok (s\<lparr>sources := f\<rparr>) = store_ok s"
  "store_ok (s\<lparr>timer := g\<rparr>) = store_ok s"
  "store_ok (s\<lparr>onDidChangeEmitter := h\<rparr>) = store_ok s"
  "store_ok (s\<lparr>onDidChangeQueryEmitter := k\<rparr>) = store_ok s"
  "store_ok (s\<lparr>console := l\<rparr>) = store_ok s"
  "store_ok (s\<lparr>api := m\<rparr>) = store_ok s"
  by (simp_all add: store_ok_def)

lemma tokens_ok_upd [simp]:
  "tokens_ok (s\<lparr>p_query := a\<rparr>) = tokens_ok s"
  "tokens_ok (s\<lparr>p_installed := b\<rparr>) = tokens_ok s"
  "tokens_ok (s\<lparr>p_searchResult := c\<rparr>) = tokens_ok s"
  "tokens_ok (s\<lparr>extensions := x\<rparr>) = tokens_ok s"
  "tokens_ok (s\<lparr>timer := g\<rparr>) = tokens_ok s"
  "tokens_ok (s\<lparr>onDidChangeEmitter := h\<rparr>) = tokens_ok s"
  "tokens_ok (s\<lparr>onDidChangeQueryEmitter := k\<rparr>) = tokens_ok s"
  "tokens_ok (s\<lparr>console := l\<rparr>) = tokens_ok s"
  "tokens_ok (s\<lparr>api := m\<rparr>) = tokens_ok s"
  by (simp_all add: tokens_ok_def)

lemma doChange_settle_fst:
  "fst (doChange_settle tok (s, r)) = s \<or>
   fst (doChange_settle tok (s, r)) = s\<lparr>onDidChangeEmitter := Suc (onDidChangeEmitter s)\<rparr>"
  by (simp add: doChange_settle_def split: sum.splits)

lemma store_ok_doChange_settle: "store_ok (fst (doChange_settle tok (s, r))) = store_ok s"
  using doChange_settle_fst [of tok s r] by (auto simp add: store_ok_def)

lemma tokens_ok_doChange_settle: "tokens_ok (fst (doChange_settle tok (s, r))) = tokens_ok s"
  using doChange_settle_fst [of tok s r] by (auto simp add: tokens_ok_def)

lemma tokens_ok_upsert: "tokens_ok (upsert s i d) = tokens_ok s"
  by (subst upsert_frame) (simp add: tokens_ok_def)

lemma tokens_ok_update_at: "tokens_ok (update_at s i d) = tokens_ok s"
  by (simp add: update_at_def tokens_ok_def split: option.splits)

lemma tokens_ok_setExtension: "tokens_ok (fst (setExtension s i)) = tokens_ok s"
  by (subst setExtension_frame) (simp add: tokens_ok_def)

lemma tokens_ok_search_loop: "tokens_ok (fst (search_loop ds (s, sr))) = tokens_ok s"
  by (subst search_loop_frame) (simp add: tokens_ok_def)


lemma store_ok_search_task:
  "store_ok s \<Longrightarrow> store_ok (fst (doUpdateSearchResult_task s tok resp))"
  by (cases resp)
     (simp_all add: doUpdateSearchResult_task_def store_ok_search_loop split: prod.splits,
      metis fst_conv store_ok_search_loop)


lemma tokens_ok_search_task:
  "tokens_ok (fst (doUpdateSearchResult_task s tok resp)) = tokens_ok s"
proof (cases resp)
  case (Inl e)
  then show ?thesis by (simp add: doUpdateSearchResult_task_def)
next
  case (Inr result)
  obtain s1 sr where l: "search_loop result (s, []) = (s1, sr)"
    by (cases "search_loop result (s, [])")
  have "tokens_ok s1 = tokens_ok s"
    using tokens_ok_search_loop [of result s "[]"] by (simp add: l)
  then show ?thesis by (simp add: doUpdateSearchResult_task_def Inr l)
qed

lemma store_ok_search_resume:
  "store_ok s \<Longrightarrow> store_ok (fst (doUpdateSearchResult_resume s tok resp))"
  using store_ok_doChange_settle [of tok "fst (doUpdateSearchResult_task s tok resp)"
      "snd (doUpdateSearchResult_task s tok resp)"]
  by (simp add: doUpdateSearchResult_resume_def store_ok_search_task)

lemma tokens_ok_search_resume:
  "tokens_ok (fst (doUpdateSearchResult_resume s tok resp)) = tokens_ok s"
  using tokens_ok_doChange_settle [of tok "fst (doUpdateSearchResult_task s tok resp)"
      "snd (doUpdateSearchResult_task s tok resp)"]
  by (simp add: doUpdateSearchResult_resume_def tokens_ok_search_task)


lemma refresh_resume_fst:
  "fst (refresh_resume s i resp) = s \<or>
   fst (refresh_resume s i resp) = s\<lparr>console := console s @ [FailedToRefresh i (projl resp)]\<rparr> \<or>
   fst (refresh_resume s i resp) = upsert s i (projr resp)"
  by (cases resp) (auto simp add: refresh_resume_def Let_def split: option.splits)

lemma store_ok_refresh_resume: "store_ok s \<Longrightarrow> store_ok (fst (refresh_resume s i resp))"
  using refresh_resume_fst [of s i resp] by (auto simp add: store_ok_upsert)

lemma tokens_ok_refresh_resume: "tokens_ok (fst (refresh_resume s i resp)) = tokens_ok s"
  using refresh_resume_fst [of s i resp] by (auto simp add: tokens_ok_upsert)

lemma store_ok_refresh [simp]: "store_ok (refresh s i) = store_ok s"
  by (simp add: refresh_def)

lemma tokens_ok_refresh [simp]: "tokens_ok (refresh s i) = tokens_ok s"
  by (simp add: refresh_def)


lemma resolve_resume_fst:
  "fst (resolve_resume s i resp) = fst (refresh_resume s i resp) \<or>
   fst (resolve_resume s i resp) =
     (fst (refresh_resume s i resp))\<lparr>onDidChangeEmitter := Suc (onDidChangeEmitter (fst (refresh_resume s i resp)))\<rparr> \<or>
   (\<exists>u. fst (resolve_resume s i resp) =
     (fst (refresh_resume s i resp))\<lparr>api := api (fst (refresh_resume s i resp)) @ [FetchText u]\<rparr>)"
  by (cases "refresh_resume s i resp")
     (auto simp add: resolve_resume_def doChange_settle_def split: sum.splits option.splits)

lemma store_ok_resolve_resume: "store_ok s \<Longrightarrow> store_ok (fst (resolve_resume s i resp))"
  using resolve_resume_fst [of s i resp] store_ok_refresh_resume [of s i resp] by auto

lemma tokens_ok_resolve_resume: "tokens_ok (fst (resolve_resume s i resp)) = tokens_ok s"
  using resolve_resume_fst [of s i resp] tokens_ok_refresh_resume [of s i resp] by auto

lemma store_ok_resolve_readme: "store_ok s \<Longrightarrow> store_ok (resolve_readme cr s i resp)"
  by (simp add: resolve_readme_def store_ok_update_at split: sum.splits)

lemma tokens_ok_resolve_readme: "tokens_ok (resolve_readme cr s i resp) = tokens_ok s"
  by (simp add: resolve_readme_def tokens_ok_update_at split: sum.splits)

lemma store_ok_resolve_resume_readme:
  "store_ok s \<Longrightarrow> store_ok (fst (resolve_resume_readme cr s i resp))"
  by (simp add: resolve_resume_readme_def Let_def store_ok_resolve_readme store_ok_doChange_settle
      split: option.splits)

lemma tokens_ok_resolve_resume_readme:
  "tokens_ok (fst (resolve_resume_readme cr s i resp)) = tokens_ok s"
  by (simp add: resolve_resume_readme_def Let_def tokens_ok_resolve_readme tokens_ok_doChange_settle
      split: option.splits)

lemma store_ok_resolve: "store_ok (fst (resolve s i)) = store_ok s"
  by (simp add: resolve_def)

lemma tokens_ok_resolve: "tokens_ok (fst (resolve s i)) = tokens_ok s"
  by (simp add: resolve_def)

lemma updateInstalled_loop_Cons:
  "updateInstalled_loop (p # ps) (s, acc) =
     (if engine_type p = ''vscode'' then
        updateInstalled_loop ps
          (refresh (fst (setExtension (s\<lparr>p_installed := Set_delete (p_installed s) (plugin_id p)\<rparr>) (plugin_id p))) (plugin_id p),
           Set_add acc (ext_id (snd (setExtension (s\<lparr>p_installed := Set_delete (p_installed s) (plugin_id p)\<rparr>) (plugin_id p)))))
      else updateInstalled_loop ps (s, acc))"
  by (simp add: Let_def split: prod.splits)

lemma vscode_ids_Cons:
  "vscode_ids (p # ps) = (if engine_type p = ''vscode'' then plugin_id p # vscode_ids ps else vscode_ids ps)"
  by (simp add: vscode_ids_def)

lemma vscode_ids_Nil: "vscode_ids [] = []"
  by (simp add: vscode_ids_def)

lemma setExtension_fields:
  "p_query (fst (setExtension s i)) = p_query s"
  "p_installed (fst (setExtension s i)) = p_installed s"
  "p_searchResult (fst (setExtension s i)) = p_searchResult s"
  "searchCancellationTokenSource (fst (setExtension s i)) = searchCancellationTokenSource s"
  "cancelled (fst (setExtension s i)) = cancelled s"
  "sources (fst (setExtension s i)) = sources s"
  "timer (fst (setExtension s i)) = timer s"
  "onDidChangeEmitter (fst (setExtension s i)) = onDidChangeEmitter s"
  "onDidChangeQueryEmitter (fst (setExtension s i)) = onDidChangeQueryEmitter s"
  "console (fst (setExtension s i)) = console s"
  "api (fst (setExtension s i)) = api s"
  by (simp_all add: setExtension_def Let_def split: option.splits)

lemma updateInstalled_loop_installed:
  "p_installed (fst (updateInstalled_loop ps (s, acc))) =
     filter (\<lambda>i. i \<notin> set (vscode_ids ps)) (p_installed s)"
proof (induction ps arbitrary: s acc)
  case Nil
  show ?case by (simp add: vscode_ids_Nil)
next
  case (Cons p ps)
  show ?case
    by (simp only: updateInstalled_loop_Cons Cons.IH vscode_ids_Cons split: if_splits)
       (auto simp add: refresh_def setExtension_fields Set_delete_def removeAll_filter_not_eq
          intro!: filter_cong)
qed

lemma updateInstalled_loop_api:
  "api (fst (updateInstalled_loop ps (s, acc))) = api s @ map GetExtension (vscode_ids ps)"
proof (induction ps arbitrary: s acc)
  case Nil
  show ?case by (simp add: vscode_ids_Nil)
next
  case (Cons p ps)
  show ?case
    by (simp only: updateInstalled_loop_Cons Cons.IH vscode_ids_Cons split: if_splits)
       (simp add: refresh_def setExtension_fields)
qed

lemma updateInstalled_loop_extensions:
  "extensions (fst (updateInstalled_loop ps (s, acc))) i =
     (if i \<in> set (vscode_ids ps) \<and> extensions s i = None then Some (extensionFactory i)
      else extensions s i)"
proof (induction ps arbitrary: s acc)
  case Nil
  show ?case by (simp add: vscode_ids_Nil)
next
  case (Cons p ps)
  show ?case
    by (simp only: updateInstalled_loop_Cons Cons.IH vscode_ids_Cons split: if_splits)
       (auto simp add: refresh_def setExtension_extensions split: option.splits)
qed

lemma updateInstalled_loop_frame:
  "fst (updateInstalled_loop ps (s, acc)) =
     s\<lparr>extensions := extensions (fst (updateInstalled_loop ps (s, acc))),
       p_installed := p_installed (fst (updateInstalled_loop ps (s, acc))),
       api := api (fst (updateInstalled_loop ps (s, acc)))\<rparr>"
proof (induction ps arbitrary: s acc)
  case Nil
  show ?case by simp
next
  case (Cons p ps)
  let ?s1 = "refresh (fst (setExtension (s\<lparr>p_installed := Set_delete (p_installed s) (plugin_id p)\<rparr>) (plugin_id p))) (plugin_id p)"
  have s1: "?s1 = s\<lparr>extensions := extensions ?s1, p_installed := p_installed ?s1, api := api ?s1\<rparr>"
    by (subst setExtension_frame) (simp add: refresh_def setExtension_fields)
  show ?case
  proof (cases "engine_type p = ''vscode''")
    case False
    then have eq: "updateInstalled_loop (p # ps) (s, acc) = updateInstalled_loop ps (s, acc)"
      by (subst updateInstalled_loop_Cons) (simp only: if_False)
    show ?thesis unfolding eq by (rule Cons.IH)
  next
    case True
    let ?acc = "Set_add acc (ext_id (snd (setExtension (s\<lparr>p_installed := Set_delete (p_installed s) (plugin_id p)\<rparr>) (plugin_id p))))"
    have eq: "updateInstalled_loop (p # ps) (s, acc) = updateInstalled_loop ps (?s1, ?acc)"
      by (subst updateInstalled_loop_Cons) (simp only: True if_True simp_thms)
    have "fst (updateInstalled_loop ps (?s1, ?acc)) =
      ?s1\<lparr>extensions := extensions (fst (updateInstalled_loop ps (?s1, ?acc))),
          p_installed := p_installed (fst (updateInstalled_loop ps (?s1, ?acc))),
          api := api (fst (updateInstalled_loop ps (?s1, ?acc)))\<rparr>"
      by (rule Cons.IH)
    also have "\<dots> = s\<lparr>extensions := extensions (fst (updateInstalled_loop ps (?s1, ?acc))),
          p_installed := p_installed (fst (updateInstalled_loop ps (?s1, ?acc))),
          api := api (fst (updateInstalled_loop ps (?s1, ?acc)))\<rparr>"
      by (subst s1) simp
    finally show ?thesis unfolding eq .
  qed
qed

lemma store_ok_updateInstalled_loop:
  "store_ok s \<Longrightarrow> store_ok (fst (updateInstalled_loop ps (s, acc)))"
  by (auto simp add: store_ok_def updateInstalled_loop_extensions extensionFactory_def split: if_splits)

lemma updateInstalled_loop_snd:
  "store_ok s \<Longrightarrow> snd (updateInstalled_loop ps (s, acc)) = foldl Set_add acc (vscode_ids ps)"
proof (induction ps arbitrary: s acc)
  case Nil
  show ?case by (simp add: vscode_ids_Nil)
next
  case (Cons p ps)
  let ?s0 = "s\<lparr>p_installed := Set_delete (p_installed s) (plugin_id p)\<rparr>"
  have ok0: "store_ok ?s0" using Cons.prems by simp
  have ok1: "store_ok (refresh (fst (setExtension ?s0 (plugin_id p))) (plugin_id p))"
    using ok0 by (simp add: store_ok_setExtension)
  have idp: "ext_id (snd (setExtension ?s0 (plugin_id p))) = plugin_id p"
    using Cons.prems
    by (auto simp add: setExtension_snd store_ok_def extensionFactory_def split: option.splits)
  show ?case
    using Cons.IH [OF ok1] Cons.IH [OF Cons.prems]
    by (simp only: updateInstalled_loop_Cons vscode_ids_Cons idp split: if_splits) simp
qed

lemma foldl_refresh: "foldl refresh s xs = s\<lparr>api := api s @ map GetExtension xs\<rparr>"
  by (induction xs arbitrary: s) (simp_all add: refresh_def)

lemma updateInstalled_task_fst:
  "store_ok s \<Longrightarrow>
   fst (updateInstalled_task ps s) =
     s\<lparr>extensions := extensions (fst (updateInstalled_loop ps (s, []))),
       p_installed := foldl Set_add [] (vscode_ids ps),
       api := api s @ map GetExtension
                (vscode_ids ps @ filter (\<lambda>i. i \<notin> set (vscode_ids ps)) (p_installed s))\<rparr>"
proof -
  assume ok: "store_ok s"
  obtain s1 acc where l: "updateInstalled_loop ps (s, []) = (s1, acc)"
    by (cases "updateInstalled_loop ps (s, [])")
  have acc: "acc = foldl Set_add [] (vscode_ids ps)"
    using updateInstalled_loop_snd [OF ok, of ps "[]"] by (simp add: l)
  have inst: "p_installed s1 = filter (\<lambda>i. i \<notin> set (vscode_ids ps)) (p_installed s)"
    using updateInstalled_loop_installed [of ps s "[]"] by (simp add: l)
  have api1: "api s1 = api s @ map GetExtension (vscode_ids ps)"
    using updateInstalled_loop_api [of ps s "[]"] by (simp add: l)
  have fr: "s1 = s\<lparr>extensions := extensions s1, p_installed := p_installed s1, api := api s1\<rparr>"
    using updateInstalled_loop_frame [of ps s "[]"] by (simp add: l)
  have "fst (updateInstalled_task ps s) =
          s1\<lparr>api := api s1 @ map GetExtension (p_installed s1), p_installed := acc\<rparr>"
    by (simp add: updateInstalled_task_def l foldl_refresh)
  also have "\<dots> = s\<lparr>extensions := extensions s1, p_installed := acc,
                     api := api s1 @ map GetExtension (p_installed s1)\<rparr>"
    by (subst fr) simp
  finally show ?thesis by (simp add: l acc inst api1)
qed

lemma updateInstalled_task_snd: "snd (updateInstalled_task ps s) = Inr ()"
  by (simp add: updateInstalled_task_def Let_def split: prod.splits)

lemma updateInstalled_eq:
  "updateInstalled s ps =
     ((fst (updateInstalled_task ps s))
        \<lparr>onDidChangeEmitter := Suc (onDidChangeEmitter (fst (updateInstalled_task ps s)))\<rparr>,
      Inr (Some ()))"
  using updateInstalled_task_snd [of ps s]
  by (cases "updateInstalled_task ps s")
     (simp add: updateInstalled_def doChange_def doChange_settle_def)

lemma store_ok_updateInstalled: "store_ok s \<Longrightarrow> store_ok (fst (updateInstalled s ps))"
  using store_ok_updateInstalled_loop [of s ps "[]"]
  by (simp add: updateInstalled_eq updateInstalled_task_fst store_ok_def)

lemma tokens_ok_updateInstalled:
  "store_ok s \<Longrightarrow> tokens_ok (fst (updateInstalled s ps)) = tokens_ok s"
  by (simp add: updateInstalled_eq updateInstalled_task_fst)


lemma updateSearchResult_fn_eq:
  "tokens_ok s \<Longrightarrow>
   updateSearchResult_fn s =
     (s\<lparr>cancelled := insert (searchCancellationTokenSource s) (cancelled s),
        searchCancellationTokenSource := sources s,
        sources := Suc (sources s),
        api := api s @ [Search (p_query s)]\<rparr>, None)"
  by (auto simp add: updateSearchResult_fn_def doUpdateSearchResult_def tokens_ok_def Let_def)

lemma tokens_ok_updateSearchResult_fn:
  "tokens_ok s \<Longrightarrow> tokens_ok (fst (updateSearchResult_fn s))"
  by (simp add: updateSearchResult_fn_eq) (auto simp add: tokens_ok_def less_Suc_eq)

lemma store_ok_updateSearchResult_fn:
  "store_ok (fst (updateSearchResult_fn s)) = store_ok s"
  by (simp add: updateSearchResult_fn_def doUpdateSearchResult_def Let_def)

lemma store_ok_elapse: "store_ok (elapse s dt) = store_ok s"
  by (simp add: elapse_def store_ok_updateSearchResult_fn split: option.splits)

lemma tokens_ok_elapse: "tokens_ok s \<Longrightarrow> tokens_ok (elapse s dt)"
  by (simp add: elapse_def tokens_ok_updateSearchResult_fn split: option.splits)

lemma store_ok_set_query: "store_ok (set_query s q) = store_ok s"
  by (simp add: set_query_def onDidChangeQueryEmitter_fire_def updateSearchResult_def Let_def)

lemma tokens_ok_set_query: "tokens_ok (set_query s q) = tokens_ok s"
  by (simp add: set_query_def onDidChangeQueryEmitter_fire_def updateSearchResult_def Let_def)

lemma store_ok_initial: "store_ok initial"
  by (simp add: store_ok_def initial_def)

lemma tokens_ok_initial: "tokens_ok initial"
  by (auto simp add: tokens_ok_def initial_def)

lemma store_ok_init: "store_ok (init ps)"
  by (simp add: init_def updateSearchResult_def store_ok_updateInstalled store_ok_initial)

lemma tokens_ok_init: "tokens_ok (init ps)"
  by (simp add: init_def updateSearchResult_def tokens_ok_updateInstalled store_ok_initial
      tokens_ok_initial)

lemma invariants_step:
  "store_ok s \<and> tokens_ok s \<Longrightarrow> store_ok (step cr s ev) \<and> tokens_ok (step cr s ev)"
  by (cases ev)
     (simp_all add: store_ok_set_query tokens_ok_set_query store_ok_elapse tokens_ok_elapse
        store_ok_updateInstalled tokens_ok_updateInstalled store_ok_resolve tokens_ok_resolve
        store_ok_search_resume tokens_ok_search_resume store_ok_refresh_resume
        tokens_ok_refresh_resume store_ok_resolve_resume tokens_ok_resolve_resume
        store_ok_resolve_resume_readme tokens_ok_resolve_resume_readme)

lemma reachable_invariants: "reachable cr s \<Longrightarrow> store_ok s \<and> tokens_ok s"
proof (induction rule: reachable.induct)
  case (reachable_init plugins)
  show ?case by (simp add: store_ok_init tokens_ok_init)
next
  case (reachable_step s ev)
  from reachable_step.IH show ?case by (rule invariants_step)
qed

lemma reachable_run: "reachable cr s \<Longrightarrow> reachable cr (run cr s evs)"
  by (induction evs arbitrary: s) (simp_all add: run_def reachable_step)

subsection \<open>The query setter\<close>

text \<open>
  C10. Writing the value that the query already has changes nothing: no event is fired,
  no window is opened, no search starts, the state is the same. Writing another value
  stores it and fires the query event once, with the new value; the listener of that
  event opens the debounce window, and nothing else of the state changes (no record, no
  id set, no token, no change event, no call of the registry).
\<close>

theorem set_query_frame:
  "set_query s (p_query s) = s \<and>
   (q \<noteq> p_query s \<longrightarrow>
      set_query s q =
        s\<lparr>p_query := q, timer := Some 150,
          onDidChangeQueryEmitter := onDidChangeQueryEmitter s @ [q]\<rparr>)"
  by (simp add: set_query_def onDidChangeQueryEmitter_fire_def updateSearchResult_def Let_def)

theorem set_query_frame_witness:
  "set_query initial (p_query initial) = initial \<and>
   ''foo'' \<noteq> p_query initial \<and>
   set_query initial ''foo'' =
     initial\<lparr>p_query := ''foo'', timer := Some 150, onDidChangeQueryEmitter := [''foo'']\<rparr>"
  using set_query_frame [of initial "''foo''"] by (simp add: initial_def)

subsection \<open>Refresh\<close>

text \<open>
  C6. When \<^verbatim>\<open>getExtension\<close> of the registry fails with status 404 and the record of the id
  is marked installed, refresh returns that record and changes nothing. With the same 404
  and no record, or a record that is not marked installed, refresh returns nothing, and
  its promise is fulfilled, not rejected. Any other error is logged, and refresh returns
  nothing.
\<close>

theorem refresh_failure:
  "(getExtension s i = Some e \<and> installed e \<longrightarrow>
      refresh_resume s i (Inl (VSXResponseError 404)) = (s, Inr (Some e))) \<and>
   (getExtension s i = None \<or> (getExtension s i = Some e \<and> \<not> installed e) \<longrightarrow>
      refresh_resume s i (Inl (VSXResponseError 404)) = (s, Inr None)) \<and>
   (\<not> is404 err \<longrightarrow>
      refresh_resume s i (Inl err) =
        (s\<lparr>console := console s @ [FailedToRefresh i err]\<rparr>, Inr None))"
  by (auto simp add: refresh_resume_def is404_def)

theorem refresh_failure_witness:
  "refresh_resume example_store ''acme.foo'' (Inl (VSXResponseError 404)) =
     (example_store,
      Inr (Some \<lparr>ext_id = ''acme.foo'', ext_data = [''installed'' \<mapsto> Bool True]\<rparr>)) \<and>
   refresh_resume example_store ''acme.bar'' (Inl (VSXResponseError 404)) =
     (example_store, Inr None) \<and>
   refresh_resume example_store ''acme.baz'' (Inl (VSXResponseError 404)) =
     (example_store, Inr None) \<and>
   refresh_resume example_store ''acme.foo'' (Inl (VSXResponseError 500)) =
     (example_store\<lparr>console :=
        console example_store @ [FailedToRefresh ''acme.foo'' (VSXResponseError 500)]\<rparr>,
      Inr None)"
  using
    refresh_failure [of example_store "''acme.foo''"
      "\<lparr>ext_id = ''acme.foo'', ext_data = [''installed'' \<mapsto> Bool True]\<rparr>"
      "VSXResponseError 500"]
    refresh_failure [of example_store "''acme.bar''"
      "\<lparr>ext_id = ''acme.bar'', ext_data = [''version'' \<mapsto> Str ''1.0'']\<rparr>"
      "VSXResponseError 500"]
    refresh_failure [of example_store "''acme.baz''" undefined "VSXResponseError 500"]
  by (simp add: example_store_foo example_store_bar example_store_baz installed_def is404_def)

subsection \<open>Tokens along a run\<close>

lemma doChange_settle_tokens:
  "sources (fst (doChange_settle tok (s, r))) = sources s \<and>
   cancelled (fst (doChange_settle tok (s, r))) = cancelled s"
  using doChange_settle_fst [of tok s r] by auto

lemma upsert_tokens:
  "sources (upsert s i d) = sources s \<and> cancelled (upsert s i d) = cancelled s"
  by (subst (1 2) upsert_frame) simp

lemma search_loop_tokens:
  "sources (fst (search_loop ds (s, sr))) = sources s \<and>
   cancelled (fst (search_loop ds (s, sr))) = cancelled s"
  by (subst (1 2) search_loop_frame) simp

lemma search_task_tokens:
  "sources (fst (doUpdateSearchResult_task s tok resp)) = sources s \<and>
   cancelled (fst (doUpdateSearchResult_task s tok resp)) = cancelled s"
proof (cases resp)
  case (Inl e)
  then show ?thesis by (simp add: doUpdateSearchResult_task_def)
next
  case (Inr result)
  obtain s1 sr where l: "search_loop result (s, []) = (s1, sr)"
    by (cases "search_loop result (s, [])")
  have "sources s1 = sources s \<and> cancelled s1 = cancelled s"
    using search_loop_tokens [of result s "[]"] by (simp add: l)
  then show ?thesis by (simp add: doUpdateSearchResult_task_def Inr l)
qed

lemma search_resume_tokens:
  "sources (fst (doUpdateSearchResult_resume s tok resp)) = sources s \<and>
   cancelled (fst (doUpdateSearchResult_resume s tok resp)) = cancelled s"
  using doChange_settle_tokens [of tok "fst (doUpdateSearchResult_task s tok resp)"
      "snd (doUpdateSearchResult_task s tok resp)"] search_task_tokens [of s tok resp]
  by (simp add: doUpdateSearchResult_resume_def)

lemma refresh_resume_tokens:
  "sources (fst (refresh_resume s i resp)) = sources s \<and>
   cancelled (fst (refresh_resume s i resp)) = cancelled s"
  by (cases resp) (simp_all add: refresh_resume_def Let_def upsert_tokens split: option.splits)

lemma resolve_resume_tokens:
  "sources (fst (resolve_resume s i resp)) = sources s \<and>
   cancelled (fst (resolve_resume s i resp)) = cancelled s"
proof -
  obtain s1 r where rr: "refresh_resume s i resp = (s1, r)"
    by (cases "refresh_resume s i resp")
  have s1: "sources s1 = sources s \<and> cancelled s1 = cancelled s"
    using refresh_resume_tokens [of s i resp] by (simp add: rr)
  show ?thesis
    using s1
    by (simp add: resolve_resume_def rr doChange_settle_def split: sum.splits option.splits)
qed

lemma resolve_readme_tokens:
  "sources (resolve_readme cr s i resp) = sources s \<and>
   cancelled (resolve_readme cr s i resp) = cancelled s"
  by (simp add: resolve_readme_def update_at_def split: sum.splits option.splits)

lemma resolve_resume_readme_tokens:
  "sources (fst (resolve_resume_readme cr s i resp)) = sources s \<and>
   cancelled (fst (resolve_resume_readme cr s i resp)) = cancelled s"
  by (simp add: resolve_resume_readme_def Let_def doChange_settle_tokens resolve_readme_tokens
      split: option.splits)

lemma updateInstalled_tokens:
  "sources (fst (updateInstalled s ps)) = sources s \<and>
   cancelled (fst (updateInstalled s ps)) = cancelled s"
proof -
  obtain s1 acc where l: "updateInstalled_loop ps (s, []) = (s1, acc)"
    by (cases "updateInstalled_loop ps (s, [])")
  have fr: "s1 = s\<lparr>extensions := extensions s1, p_installed := p_installed s1, api := api s1\<rparr>"
    using updateInstalled_loop_frame [of ps s "[]"] by (simp add: l)
  have "sources s1 = sources s \<and> cancelled s1 = cancelled s"
    by (subst (1 2) fr) simp
  then show ?thesis
    by (simp add: updateInstalled_eq updateInstalled_task_def l foldl_refresh)
qed

lemma updateSearchResult_fn_tokens:
  "sources (fst (updateSearchResult_fn s)) = Suc (sources s) \<and>
   cancelled (fst (updateSearchResult_fn s)) = insert (searchCancellationTokenSource s) (cancelled s) \<and>
   searchCancellationTokenSource (fst (updateSearchResult_fn s)) = sources s"
  by (simp add: updateSearchResult_fn_def doUpdateSearchResult_def Let_def)

lemma step_tokens_mono:
  "sources s \<le> sources (step cr s ev) \<and> cancelled s \<subseteq> cancelled (step cr s ev)"
proof (cases ev)
  case (SetQuery q)
  then show ?thesis
    by (simp add: set_query_def onDidChangeQueryEmitter_fire_def updateSearchResult_def Let_def)
next
  case (Elapse dt)
  then show ?thesis
    using updateSearchResult_fn_tokens [of "s\<lparr>timer := None\<rparr>"]
    by (auto simp add: elapse_def split: option.splits)
next
  case (PluginsChanged ps)
  then show ?thesis using updateInstalled_tokens [of s ps] by simp
next
  case (Resolve i)
  then show ?thesis by (simp add: resolve_def refresh_def)
next
  case (SearchSettled n resp)
  then show ?thesis using search_resume_tokens [of s "Token n" resp] by simp
next
  case (RefreshSettled i resp)
  then show ?thesis using refresh_resume_tokens [of s i resp] by simp
next
  case (ResolveSettled i resp)
  then show ?thesis using resolve_resume_tokens [of s i resp] by simp
next
  case (ReadmeSettled i resp)
  then show ?thesis using resolve_resume_readme_tokens [of cr s i resp] by simp
qed

lemma run_tokens_mono:
  "sources s \<le> sources (run cr s evs) \<and> cancelled s \<subseteq> cancelled (run cr s evs)"
proof (induction evs arbitrary: s)
  case Nil
  show ?case by (simp add: run_def)
next
  case (Cons ev evs)
  have "run cr s (ev # evs) = run cr (step cr s ev) evs" by (simp add: run_def)
  then show ?case
    using Cons.IH [of "step cr s ev"] step_tokens_mono [of s cr ev] by auto
qed

lemma cancelled_search_resume:
  "n \<in> cancelled s \<Longrightarrow>
   doUpdateSearchResult_resume s (Token n) resp =
     (s, case resp of Inl e \<Rightarrow> Inl e | Inr result \<Rightarrow> Inr None)"
  by (simp add: doUpdateSearchResult_resume_def doUpdateSearchResult_task_def
      doChange_settle_def split: sum.splits)

lemma invariants_run:
  "store_ok s \<and> tokens_ok s \<Longrightarrow> store_ok (run cr s evs) \<and> tokens_ok (run cr s evs)"
proof (induction evs arbitrary: s)
  case Nil
  then show ?case by (simp add: run_def)
next
  case (Cons ev evs)
  have "run cr s (ev # evs) = run cr (step cr s ev) evs" by (simp add: run_def)
  then show ?case using Cons.IH [OF invariants_step [OF Cons.prems]] by simp
qed

lemma current_token_not_cancelled:
  "tokens_ok s \<Longrightarrow> \<not> isCancellationRequested s (Token (searchCancellationTokenSource s))"
  by (simp add: tokens_ok_def)


lemma toLowerCase_char_Char:
  "toLowerCase_char (Char b0 b1 b2 b3 b4 b5 b6 b7) =
     (if \<not> b7 \<and> b6 \<and> \<not> b5 \<and> (b0 \<or> b1 \<or> b2 \<or> b3 \<or> b4) \<and>
         \<not> (b4 \<and> b3 \<and> (b2 \<or> (b1 \<and> b0)))
      then Char b0 b1 b2 b3 b4 True b6 b7 else Char b0 b1 b2 b3 b4 b5 b6 b7)"
  by (cases b0; cases b1; cases b2; cases b3; cases b4; cases b5; cases b6; cases b7;
      simp add: toLowerCase_char_def char_of_def Let_def bit_Suc_0_iff)

lemmas run_defs =
  run_def init_def initial_def updateInstalled_def updateInstalled_task_def doChange_def
  doChange_settle_def updateSearchResult_def set_query_def onDidChangeQueryEmitter_fire_def
  updateSearchResult_fn_def doUpdateSearchResult_def doUpdateSearchResult_resume_def
  doUpdateSearchResult_task_def upsert_def setExtension_def update_at_def update_def
  extensionFactory_def search_id_def entry_data_def toLowerCase_def toLowerCase_char_Char
  Set_add_def Let_def

lemma foo_id: "search_id foo_entry = ''acme.foo''"
  by (simp add: foo_entry_def search_id_def toLowerCase_def toLowerCase_char_Char)

lemma foobar_id: "search_id foobar_entry = ''acme.foobar''"
  by (simp add: foobar_entry_def search_id_def toLowerCase_def toLowerCase_char_Char)

lemma example_run_first_token: "searchCancellationTokenSource (fst (updateSearchResult_fn (set_query (init []) ''fo''))) = 1"
  by (simp add: run_defs)

lemma example_run_result: "p_searchResult example_run = [''acme.foo''] \<and> searchCancellationTokenSource example_run = 2"
  by (simp add: example_run_def run_defs foo_entry_def)


subsection \<open>Superseded search cycles\<close>

text \<open>
  C1. Take any reachable state, start a search cycle there, let anything happen, start a
  newer search cycle, and let anything happen again (the response of the newer cycle may
  arrive here). When the response of the older cycle is then processed, whether it is a
  result or a failure, the state is left as it is: no record is updated, the search result
  set is not replaced, no change event is fired. The promise of the older cycle yields
  nothing, or the failure of the registry call.
\<close>

theorem superseded_search_no_effect:
  assumes "reachable cr s"
  shows "doUpdateSearchResult_resume
           (run cr (fst (updateSearchResult_fn (run cr (fst (updateSearchResult_fn s)) evs1))) evs2)
           (Token (searchCancellationTokenSource (fst (updateSearchResult_fn s)))) resp =
         (run cr (fst (updateSearchResult_fn (run cr (fst (updateSearchResult_fn s)) evs1))) evs2,
          case resp of Inl e \<Rightarrow> Inl e | Inr result \<Rightarrow> Inr None)"
proof -
  let ?s1 = "fst (updateSearchResult_fn s)"
  let ?s2 = "run cr ?s1 evs1"
  let ?s3 = "fst (updateSearchResult_fn ?s2)"
  let ?s4 = "run cr ?s3 evs2"
  let ?a = "searchCancellationTokenSource ?s1"
  have a: "?a = sources s" and src1: "sources ?s1 = Suc (sources s)"
    using updateSearchResult_fn_tokens [of s] by simp_all
  have inv: "store_ok s \<and> tokens_ok s"
    using assms by (rule reachable_invariants)
  then have inv1: "store_ok ?s1 \<and> tokens_ok ?s1"
    by (simp add: store_ok_updateSearchResult_fn tokens_ok_updateSearchResult_fn)
  have inv2: "tokens_ok ?s2"
    using invariants_run [OF inv1, of cr evs1] by simp
  have "sources ?s1 \<le> sources ?s2"
    using run_tokens_mono [of ?s1 cr evs1] by simp
  then have lt: "?a < sources ?s2"
    by (simp add: a src1)
  have "?a = searchCancellationTokenSource ?s2 \<or> ?a \<in> cancelled ?s2"
    using inv2 lt unfolding tokens_ok_def by blast
  then have "?a \<in> cancelled ?s3"
    using updateSearchResult_fn_tokens [of ?s2] by auto
  then have "?a \<in> cancelled ?s4"
    using run_tokens_mono [of ?s3 cr evs2] by blast
  then show ?thesis by (rule cancelled_search_resume)
qed

theorem superseded_search_no_effect_witness:
  "reachable Inr (set_query (init []) ''fo'') \<and>
   doUpdateSearchResult_resume example_run (Token 1) (Inr [foobar_entry]) = (example_run, Inr None) \<and>
   p_searchResult example_run = [''acme.foo''] \<and>
   searchCancellationTokenSource example_run = 2"
proof -
  have r: "reachable Inr (set_query (init []) ''fo'')"
    using reachable_step [OF reachable_init, of Inr "[]" "SetQuery ''fo''"] by simp
  show ?thesis
    using r superseded_search_no_effect [OF r, of "[SetQuery ''foo'']"
        "[SearchSettled 2 (Inr [foo_entry])]" "Inr [foobar_entry]"] example_run_result
    by (simp add: example_run_first_token example_run_def [symmetric])
qed

subsection \<open>The loop of a search cycle\<close>

lemma update_update: "update (update e a) b = update e (a ++ b)"
  by (simp add: update_def)

lemma foldl_map_add: "foldl (++) a xs = a ++ foldl (++) Map.empty xs"
proof (induction xs arbitrary: a)
  case Nil
  show ?case by simp
next
  case (Cons x xs)
  have "foldl (++) a (x # xs) = (a ++ x) ++ foldl (++) Map.empty xs"
    using Cons.IH [of "a ++ x"] by simp
  also have "\<dots> = a ++ (x ++ foldl (++) Map.empty xs)" by simp
  also have "\<dots> = a ++ foldl (++) Map.empty (x # xs)"
    using Cons.IH [of x] by simp
  finally show ?case .
qed

lemma merged_Nil: "merged i [] = Map.empty"
  by (simp add: merged_def)

lemma merged_Cons:
  "merged i (d # ds) = (if search_id d = i then entry_data d ++ merged i ds else merged i ds)"
  using foldl_map_add [of "entry_data d" "map entry_data (filter (\<lambda>d. search_id d = i) ds)"]
  by (simp add: merged_def)

lemma merged_absent: "i \<notin> search_id ` set ds \<Longrightarrow> merged i ds = Map.empty"
  by (induction ds) (auto simp add: merged_Nil merged_Cons)

lemma search_loop_Cons:
  "search_loop (d # ds) (s, sr) =
     search_loop ds (upsert s (search_id d) (entry_data d), Set_add sr (search_id d))"
  by (simp add: Let_def)

lemma search_loop_extensions:
  "extensions (fst (search_loop ds (s, sr))) i =
     (if i \<in> search_id ` set ds
      then Some (update (case extensions s i of Some e \<Rightarrow> e | None \<Rightarrow> extensionFactory i)
                   (merged i ds))
      else extensions s i)"
proof (induction ds arbitrary: s sr)
  case Nil
  show ?case by simp
next
  case (Cons d ds)
  let ?s' = "upsert s (search_id d) (entry_data d)"
  have IH: "extensions (fst (search_loop (d # ds) (s, sr))) i =
     (if i \<in> search_id ` set ds
      then Some (update (case extensions ?s' i of Some e \<Rightarrow> e | None \<Rightarrow> extensionFactory i)
                   (merged i ds))
      else extensions ?s' i)"
    unfolding search_loop_Cons by (rule Cons.IH)
  show ?case
  proof (cases "search_id d = i")
    case False
    then show ?thesis
      by (auto simp add: IH upsert_extensions merged_Cons simp del: search_loop.simps)
  next
    case True
    show ?thesis
    proof (cases "i \<in> search_id ` set ds")
      case True
      with \<open>search_id d = i\<close> show ?thesis
        by (simp add: IH upsert_extensions merged_Cons update_update del: search_loop.simps)
    next
      case False
      with \<open>search_id d = i\<close> show ?thesis
        by (simp add: IH upsert_extensions merged_Cons merged_absent del: search_loop.simps)
    qed
  qed
qed

lemma merged_distinct:
  "distinct (map search_id ds) \<Longrightarrow> d \<in> set ds \<Longrightarrow> merged (search_id d) ds = entry_data d"
proof (induction ds)
  case Nil
  then show ?case by simp
next
  case (Cons x ds)
  show ?case
  proof (cases "x = d")
    case True
    then have "search_id d \<notin> search_id ` set ds" using Cons.prems by auto
    then show ?thesis using True by (simp add: merged_Cons merged_absent)
  next
    case False
    then have "d \<in> set ds" using Cons.prems by simp
    moreover have "search_id x \<noteq> search_id d" using Cons.prems \<open>d \<in> set ds\<close> by auto
    ultimately show ?thesis using Cons.IH Cons.prems by (simp add: merged_Cons)
  qed
qed


lemma example_cycle_eq:
  "example_cycle =
     initial\<lparr>p_query := ''foo'', onDidChangeEmitter := 1, onDidChangeQueryEmitter := [''foo''],
       timer := Some 150, cancelled := {0}, searchCancellationTokenSource := 1, sources := 2,
       api := [Search ''foo'']\<rparr>"
  by (simp add: example_cycle_def run_defs)

lemma example_cycle_current: "\<not> isCancellationRequested example_cycle (Token 1)"
  by (simp add: example_cycle_eq initial_def)

lemma foo_data:
  "entry_data foo_entry =
     [''version'' \<mapsto> Str ''1.0'', ''publisher'' \<mapsto> Str ''Acme'', ''name'' \<mapsto> Str ''Foo'']"
  by (simp add: entry_data_def foo_entry_def)

lemma foobar_data:
  "entry_data foobar_entry =
     [''description'' \<mapsto> Str ''x'', ''publisher'' \<mapsto> Str ''acme'', ''name'' \<mapsto> Str ''FooBar'']"
  by (simp add: entry_data_def foobar_entry_def)


subsection \<open>A search cycle that commits\<close>

text \<open>
  C5. When the response of a search cycle whose token is not cancelled is processed, every
  entry of the response, in order, is upserted with its fields under the id
  \<open>toLowerCase publisher @ ''.'' @ toLowerCase name\<close>, the search result set is replaced by
  the set of these ids, one change event is fired, and nothing else changes. The record
  under such an id is the record that was there (or a fresh one) with the fields of the
  entries of that id merged onto it; when the ids of the response are distinct, these are
  the fields of the one entry. Records under other ids are as before.
\<close>

theorem search_commits:
  assumes "\<not> isCancellationRequested s tok"
  shows "doUpdateSearchResult_resume s tok (Inr result) =
           (s\<lparr>extensions := extensions (fst (search_loop result (s, []))),
              p_searchResult := foldl Set_add [] (map search_id result),
              onDidChangeEmitter := Suc (onDidChangeEmitter s)\<rparr>,
            Inr (Some ())) \<and>
         set (foldl Set_add [] (map search_id result)) = search_id ` set result \<and>
         (\<forall>i. extensions (fst (search_loop result (s, []))) i =
            (if i \<in> search_id ` set result
             then Some (update (case extensions s i of Some e \<Rightarrow> e | None \<Rightarrow> extensionFactory i)
                          (merged i result))
             else extensions s i)) \<and>
         (distinct (map search_id result) \<longrightarrow>
            (\<forall>d \<in> set result.
               extensions (fst (search_loop result (s, []))) (search_id d) =
                 Some (update (case extensions s (search_id d) of
                                 Some e \<Rightarrow> e | None \<Rightarrow> extensionFactory (search_id d))
                         (entry_data d))))"
proof -
  obtain s1 sr where l: "search_loop result (s, []) = (s1, sr)"
    by (cases "search_loop result (s, [])")
  have sr: "sr = foldl Set_add [] (map search_id result)"
    using search_loop_snd [of result s "[]"] by (simp add: l)
  have fr: "s1 = s\<lparr>extensions := extensions s1\<rparr>"
    using search_loop_frame [of result s "[]"] by (simp add: l)
  have nc: "\<not> isCancellationRequested (s1\<lparr>p_searchResult := sr\<rparr>) tok"
    using assms search_loop_tokens [of result s "[]"] by (cases tok) (simp_all add: l)
  have "doUpdateSearchResult_resume s tok (Inr result) =
          (s1\<lparr>p_searchResult := sr, onDidChangeEmitter := Suc (onDidChangeEmitter s1)\<rparr>, Inr (Some ()))"
    using assms nc
    by (simp add: doUpdateSearchResult_resume_def doUpdateSearchResult_task_def l doChange_settle_def)
  also have "s1\<lparr>p_searchResult := sr, onDidChangeEmitter := Suc (onDidChangeEmitter s1)\<rparr> =
     s\<lparr>extensions := extensions s1, p_searchResult := sr,
       onDidChangeEmitter := Suc (onDidChangeEmitter s)\<rparr>"
    by (subst (1 2) fr) simp
  finally have 1: "doUpdateSearchResult_resume s tok (Inr result) =
           (s\<lparr>extensions := extensions (fst (search_loop result (s, []))),
              p_searchResult := foldl Set_add [] (map search_id result),
              onDidChangeEmitter := Suc (onDidChangeEmitter s)\<rparr>,
            Inr (Some ()))"
    by (simp add: l sr)
  have 2: "set (foldl Set_add [] (map search_id result)) = search_id ` set result"
    by (simp add: set_foldl_Set_add)
  have 3: "\<forall>i. extensions (fst (search_loop result (s, []))) i =
            (if i \<in> search_id ` set result
             then Some (update (case extensions s i of Some e \<Rightarrow> e | None \<Rightarrow> extensionFactory i)
                          (merged i result))
             else extensions s i)"
    by (simp only: search_loop_extensions) simp
  have 4: "distinct (map search_id result) \<longrightarrow>
            (\<forall>d \<in> set result.
               extensions (fst (search_loop result (s, []))) (search_id d) =
                 Some (update (case extensions s (search_id d) of
                                 Some e \<Rightarrow> e | None \<Rightarrow> extensionFactory (search_id d))
                         (entry_data d)))"
    by (simp add: search_loop_extensions merged_distinct)
  from 1 2 3 4 show ?thesis by blast
qed

theorem search_commits_witness:
  "\<not> isCancellationRequested example_cycle (Token 1) \<and>
   distinct (map search_id [foo_entry, foobar_entry]) \<and>
   snd (doUpdateSearchResult_resume example_cycle (Token 1) (Inr [foo_entry, foobar_entry])) =
     Inr (Some ()) \<and>
   p_searchResult
     (fst (doUpdateSearchResult_resume example_cycle (Token 1) (Inr [foo_entry, foobar_entry]))) =
     [''acme.foo'', ''acme.foobar''] \<and>
   extensions
     (fst (doUpdateSearchResult_resume example_cycle (Token 1) (Inr [foo_entry, foobar_entry])))
     ''acme.foo'' =
     Some \<lparr>ext_id = ''acme.foo'',
           ext_data = [''version'' \<mapsto> Str ''1.0'', ''publisher'' \<mapsto> Str ''Acme'',
                       ''name'' \<mapsto> Str ''Foo'']\<rparr> \<and>
   extensions
     (fst (doUpdateSearchResult_resume example_cycle (Token 1) (Inr [foo_entry, foobar_entry])))
     ''acme.foobar'' =
     Some \<lparr>ext_id = ''acme.foobar'',
           ext_data = [''description'' \<mapsto> Str ''x'', ''publisher'' \<mapsto> Str ''acme'',
                       ''name'' \<mapsto> Str ''FooBar'']\<rparr>"
proof -
  let ?r = "[foo_entry, foobar_entry]"
  let ?s' = "fst (search_loop ?r (example_cycle, []))"
  have ext0: "extensions example_cycle = Map.empty"
    by (simp add: example_cycle_eq initial_def)
  have d: "distinct (map search_id ?r)"
    by (simp add: foo_id foobar_id)
  note T = search_commits [OF example_cycle_current, of ?r]
  from T have eq: "doUpdateSearchResult_resume example_cycle (Token 1) (Inr ?r) =
      (example_cycle\<lparr>extensions := extensions ?s',
         p_searchResult := foldl Set_add [] (map search_id ?r),
         onDidChangeEmitter := Suc (onDidChangeEmitter example_cycle)\<rparr>, Inr (Some ()))"
    by (rule conjunct1)
  from T d have each: "\<forall>d \<in> set ?r. extensions ?s' (search_id d) =
      Some (update (case extensions example_cycle (search_id d) of
                      Some e \<Rightarrow> e | None \<Rightarrow> extensionFactory (search_id d)) (entry_data d))"
    by blast
  have foo: "extensions ?s' ''acme.foo'' =
      Some \<lparr>ext_id = ''acme.foo'',
            ext_data = [''version'' \<mapsto> Str ''1.0'', ''publisher'' \<mapsto> Str ''Acme'',
                        ''name'' \<mapsto> Str ''Foo'']\<rparr>"
    using each [THEN bspec, of foo_entry]
    by (simp add: foo_id ext0 foo_data extensionFactory_def update_def del: search_loop.simps)
  have foobar: "extensions ?s' ''acme.foobar'' =
      Some \<lparr>ext_id = ''acme.foobar'',
            ext_data = [''description'' \<mapsto> Str ''x'', ''publisher'' \<mapsto> Str ''acme'',
                        ''name'' \<mapsto> Str ''FooBar'']\<rparr>"
    using each [THEN bspec, of foobar_entry]
    by (simp add: foobar_id ext0 foobar_data extensionFactory_def update_def del: search_loop.simps)
  show ?thesis
    using d foo foobar eq example_cycle_current
    by (simp add: foo_id foobar_id Set_add_def del: search_loop.simps)
qed

subsection \<open>Example stores\<close>

lemma store_ok_example_store: "store_ok example_store"
  by (simp add: example_store_def store_ok_upsert store_ok_initial)

lemma example_installed_None:
  "extensions example_installed ''acme.new'' = None"
  by (simp add: example_installed_def example_store_def upsert_extensions initial_def)


subsection \<open>Reconciliation of the installed set\<close>

text \<open>
  C4. In a state whose records are held under their own ids (every reachable state is
  one), a pass of \<^verbatim>\<open>updateInstalled\<close> replaces the installed set by exactly the ids of the
  reported plugins whose engine type is \<^verbatim>\<open>vscode\<close>. The pass is one step: it issues a
  \<^verbatim>\<open>getExtension\<close> call for every such plugin and for every id of the previous set that is
  no longer reported, and it replaces the set, creates the missing records and fires the
  change event without the answer of any of these calls; no existing record is changed.
\<close>

theorem updateInstalled_replaces:
  assumes "store_ok s"
  shows "updateInstalled s plugins =
           (s\<lparr>extensions := extensions (fst (updateInstalled s plugins)),
              p_installed := foldl Set_add [] (vscode_ids plugins),
              api := api s @ map GetExtension
                       (vscode_ids plugins @
                        filter (\<lambda>i. i \<notin> set (vscode_ids plugins)) (p_installed s)),
              onDidChangeEmitter := Suc (onDidChangeEmitter s)\<rparr>,
            Inr (Some ())) \<and>
         set (p_installed (fst (updateInstalled s plugins))) =
           plugin_id ` {p \<in> set plugins. engine_type p = ''vscode''} \<and>
         (\<forall>i. extensions (fst (updateInstalled s plugins)) i =
            (if i \<in> set (vscode_ids plugins) \<and> extensions s i = None
             then Some (extensionFactory i) else extensions s i))"
proof -
  have eq: "fst (updateInstalled s plugins) =
      s\<lparr>extensions := extensions (fst (updateInstalled_loop plugins (s, []))),
        p_installed := foldl Set_add [] (vscode_ids plugins),
        api := api s @ map GetExtension
                 (vscode_ids plugins @
                  filter (\<lambda>i. i \<notin> set (vscode_ids plugins)) (p_installed s)),
        onDidChangeEmitter := Suc (onDidChangeEmitter s)\<rparr>"
    by (simp add: updateInstalled_eq updateInstalled_task_fst [OF assms])
  have ext: "extensions (fst (updateInstalled s plugins)) =
      extensions (fst (updateInstalled_loop plugins (s, [])))"
    by (subst eq) simp
  have 1: "updateInstalled s plugins =
           (s\<lparr>extensions := extensions (fst (updateInstalled s plugins)),
              p_installed := foldl Set_add [] (vscode_ids plugins),
              api := api s @ map GetExtension
                       (vscode_ids plugins @
                        filter (\<lambda>i. i \<notin> set (vscode_ids plugins)) (p_installed s)),
              onDidChangeEmitter := Suc (onDidChangeEmitter s)\<rparr>,
            Inr (Some ()))"
    using eq by (simp add: ext updateInstalled_eq)
  have "set (p_installed (fst (updateInstalled s plugins))) = set (vscode_ids plugins)"
    by (subst eq) (simp add: set_foldl_Set_add)
  then have 2: "set (p_installed (fst (updateInstalled s plugins))) =
           plugin_id ` {p \<in> set plugins. engine_type p = ''vscode''}"
    by (simp add: vscode_ids_def)
  have 3: "\<forall>i. extensions (fst (updateInstalled s plugins)) i =
            (if i \<in> set (vscode_ids plugins) \<and> extensions s i = None
             then Some (extensionFactory i) else extensions s i)"
    by (simp only: ext updateInstalled_loop_extensions) simp
  from 1 2 3 show ?thesis by blast
qed


theorem updateInstalled_replaces_witness:
  "store_ok example_installed \<and>
   p_installed (fst (updateInstalled example_installed example_plugins)) =
     [''acme.foo'', ''acme.new''] \<and>
   api (fst (updateInstalled example_installed example_plugins)) =
     api example_installed @
       [GetExtension ''acme.foo'', GetExtension ''acme.new'', GetExtension ''acme.old''] \<and>
   extensions (fst (updateInstalled example_installed example_plugins)) ''acme.new'' =
     Some \<lparr>ext_id = ''acme.new'', ext_data = Map.empty\<rparr> \<and>
   extensions (fst (updateInstalled example_installed example_plugins)) ''acme.foo'' =
     extensions example_installed ''acme.foo'' \<and>
   snd (updateInstalled example_installed example_plugins) = Inr (Some ())"
proof -
  have ok: "store_ok example_installed"
    by (simp add: example_installed_def store_ok_example_store)
  have ids: "vscode_ids example_plugins = [''acme.foo'', ''acme.new'']"
    by (simp add: vscode_ids_def example_plugins_def)
  have old: "p_installed example_installed = [''acme.old'', ''acme.foo'']"
    by (simp add: example_installed_def)
  note T = updateInstalled_replaces [OF ok, of example_plugins]
  from T have eq: "updateInstalled example_installed example_plugins =
           (example_installed\<lparr>extensions := extensions (fst (updateInstalled example_installed example_plugins)),
              p_installed := foldl Set_add [] (vscode_ids example_plugins),
              api := api example_installed @ map GetExtension
                       (vscode_ids example_plugins @
                        filter (\<lambda>i. i \<notin> set (vscode_ids example_plugins)) (p_installed example_installed)),
              onDidChangeEmitter := Suc (onDidChangeEmitter example_installed)\<rparr>,
            Inr (Some ()))"
    by (rule conjunct1)
  from T have ext: "\<forall>i. extensions (fst (updateInstalled example_installed example_plugins)) i =
            (if i \<in> set (vscode_ids example_plugins) \<and> extensions example_installed i = None
             then Some (extensionFactory i) else extensions example_installed i)"
    by blast
  have new: "extensions (fst (updateInstalled example_installed example_plugins)) ''acme.new'' =
     Some \<lparr>ext_id = ''acme.new'', ext_data = Map.empty\<rparr>"
    by (simp add: ext ids example_installed_None extensionFactory_def)
  have foo: "extensions (fst (updateInstalled example_installed example_plugins)) ''acme.foo'' =
     extensions example_installed ''acme.foo''"
  proof -
    have "extensions example_installed ''acme.foo'' \<noteq> None"
      using example_store_foo by (simp add: example_installed_def getExtension_def)
    then show ?thesis by (simp add: ext ids)
  qed
  have inst: "p_installed (fst (updateInstalled example_installed example_plugins)) =
     [''acme.foo'', ''acme.new'']"
    by (subst eq) (simp add: ids Set_add_def)
  have calls: "api (fst (updateInstalled example_installed example_plugins)) =
     api example_installed @
       [GetExtension ''acme.foo'', GetExtension ''acme.new'', GetExtension ''acme.old'']"
    by (subst eq) (simp add: ids old)
  have res: "snd (updateInstalled example_installed example_plugins) = Inr (Some ())"
    by (subst eq) simp
  from ok inst calls new foo res show ?thesis by blast
qed

lemma upsert_twice_data:
  "\<exists>e. getExtension (upsert (upsert s i d1) i d2) i = Some e \<and>
     ext_id e = ext_id (case extensions s i of Some e0 \<Rightarrow> e0 | None \<Rightarrow> extensionFactory i) \<and>
     ext_data e =
       ext_data (case extensions s i of Some e0 \<Rightarrow> e0 | None \<Rightarrow> extensionFactory i) ++ d1 ++ d2"
  by (simp add: getExtension_def upsert_extensions update_def)

lemma unique_ids: "store_ok s \<Longrightarrow> extensions s j = Some e \<Longrightarrow> extensions s k = Some e' \<Longrightarrow>
  ext_id e = ext_id e' \<Longrightarrow> j = k"
  by (auto simp add: store_ok_def)


subsection \<open>Upsert is a merge\<close>

text \<open>
  C3. Upserting two partial updates with different fields under one id, in either order,
  leaves one record under that id which has every field of both updates, and every other
  field as the record had it before (none when there was no record); the two orders give
  the same state. An upsert leaves the records under other ids alone. In every reachable
  state two records of the store with the same id are held under the same key: there is
  at most one record per id.
\<close>

theorem upsert_merges:
  "(dom d1 \<inter> dom d2 = {} \<longrightarrow>
      (\<exists>e. getExtension (upsert (upsert s i d1) i d2) i = Some e \<and>
           (\<forall>k v. d1 k = Some v \<or> d2 k = Some v \<longrightarrow> ext_data e k = Some v) \<and>
           (\<forall>k. k \<notin> dom d1 \<and> k \<notin> dom d2 \<longrightarrow>
                ext_data e k =
                  (case getExtension s i of Some e0 \<Rightarrow> ext_data e0 k | None \<Rightarrow> None))) \<and>
      upsert (upsert s i d1) i d2 = upsert (upsert s i d2) i d1) \<and>
   (\<forall>j. j \<noteq> i \<longrightarrow> getExtension (upsert s i d1) j = getExtension s j) \<and>
   (reachable cr s' \<longrightarrow>
      (\<forall>j k e e'. getExtension s' j = Some e \<and> getExtension s' k = Some e' \<and> ext_id e = ext_id e'
         \<longrightarrow> j = k))"
proof -
  let ?e0 = "case extensions s i of Some e0 \<Rightarrow> e0 | None \<Rightarrow> extensionFactory i"
  have A: "dom d1 \<inter> dom d2 = {} \<longrightarrow>
      (\<exists>e. getExtension (upsert (upsert s i d1) i d2) i = Some e \<and>
           (\<forall>k v. d1 k = Some v \<or> d2 k = Some v \<longrightarrow> ext_data e k = Some v) \<and>
           (\<forall>k. k \<notin> dom d1 \<and> k \<notin> dom d2 \<longrightarrow>
                ext_data e k =
                  (case getExtension s i of Some e0 \<Rightarrow> ext_data e0 k | None \<Rightarrow> None)))"
  proof
    assume dj: "dom d1 \<inter> dom d2 = {}"
    obtain e where e: "getExtension (upsert (upsert s i d1) i d2) i = Some e"
      and d: "ext_data e = ext_data ?e0 ++ d1 ++ d2"
      using upsert_twice_data [of s i d1 d2] by blast
    have 1: "\<forall>k v. d1 k = Some v \<or> d2 k = Some v \<longrightarrow> ext_data e k = Some v"
    proof (intro allI impI)
      fix k v assume "d1 k = Some v \<or> d2 k = Some v"
      then show "ext_data e k = Some v"
      proof
        assume k: "d1 k = Some v"
        then have "d2 k = None" using dj by (auto simp add: dom_def)
        then show ?thesis using k by (simp add: d map_add_def)
      next
        assume "d2 k = Some v"
        then show ?thesis by (simp add: d map_add_def)
      qed
    qed
    have 2: "\<forall>k. k \<notin> dom d1 \<and> k \<notin> dom d2 \<longrightarrow>
                ext_data e k =
                  (case getExtension s i of Some e0 \<Rightarrow> ext_data e0 k | None \<Rightarrow> None)"
      by (auto simp add: d map_add_def dom_def getExtension_def extensionFactory_def
          split: option.splits)
    from e 1 2 show "\<exists>e. getExtension (upsert (upsert s i d1) i d2) i = Some e \<and>
           (\<forall>k v. d1 k = Some v \<or> d2 k = Some v \<longrightarrow> ext_data e k = Some v) \<and>
           (\<forall>k. k \<notin> dom d1 \<and> k \<notin> dom d2 \<longrightarrow>
                ext_data e k =
                  (case getExtension s i of Some e0 \<Rightarrow> ext_data e0 k | None \<Rightarrow> None))"
      by blast
  qed
  have B: "dom d1 \<inter> dom d2 = {} \<longrightarrow> upsert (upsert s i d1) i d2 = upsert (upsert s i d2) i d1"
  proof
    assume dj: "dom d1 \<inter> dom d2 = {}"
    have "ext_data ?e0 ++ d1 ++ d2 = ext_data ?e0 ++ d2 ++ d1"
      using map_add_comm [OF dj] by (metis map_add_assoc)
    then have ext: "extensions (upsert (upsert s i d1) i d2) = extensions (upsert (upsert s i d2) i d1)"
      by (simp add: upsert_extensions update_def)
    have "upsert (upsert s i d1) i d2 = s\<lparr>extensions := extensions (upsert (upsert s i d1) i d2)\<rparr>"
      by (subst upsert_frame, subst (2) upsert_frame) simp
    moreover have "upsert (upsert s i d2) i d1 = s\<lparr>extensions := extensions (upsert (upsert s i d2) i d1)\<rparr>"
      by (subst upsert_frame, subst (2) upsert_frame) simp
    ultimately show "upsert (upsert s i d1) i d2 = upsert (upsert s i d2) i d1"
      using ext by simp
  qed
  have C: "\<forall>j. j \<noteq> i \<longrightarrow> getExtension (upsert s i d1) j = getExtension s j"
    by (simp add: getExtension_def upsert_extensions)
  have D: "reachable cr s' \<longrightarrow>
      (\<forall>j k e e'. getExtension s' j = Some e \<and> getExtension s' k = Some e' \<and> ext_id e = ext_id e'
         \<longrightarrow> j = k)"
    using reachable_invariants [of cr s'] unique_ids [of s']
    unfolding getExtension_def by blast
  from A B C D show ?thesis by blast
qed

theorem upsert_merges_witness:
  "dom [''description'' \<mapsto> Str ''x''] \<inter> dom [''installed'' \<mapsto> Bool True] = {} \<and>
   (\<exists>e. getExtension
          (upsert (upsert example_store ''acme.bar'' [''description'' \<mapsto> Str ''x''])
             ''acme.bar'' [''installed'' \<mapsto> Bool True]) ''acme.bar'' = Some e \<and>
        ext_data e ''version'' = Some (Str ''1.0'') \<and>
        ext_data e ''description'' = Some (Str ''x'') \<and>
        ext_data e ''installed'' = Some (Bool True)) \<and>
   reachable Inr (init [])"
proof -
  let ?d1 = "[''description'' \<mapsto> Str ''x'']"
  let ?d2 = "[''installed'' \<mapsto> Bool True]"
  have dj: "dom ?d1 \<inter> dom ?d2 = {}" by simp
  note T = upsert_merges [of ?d1 ?d2 example_store "''acme.bar''" Inr "init []"]
  from T dj obtain e where
    e: "getExtension (upsert (upsert example_store ''acme.bar'' ?d1) ''acme.bar'' ?d2) ''acme.bar'' = Some e"
    and given: "\<forall>k v. ?d1 k = Some v \<or> ?d2 k = Some v \<longrightarrow> ext_data e k = Some v"
    and kept: "\<forall>k. k \<notin> dom ?d1 \<and> k \<notin> dom ?d2 \<longrightarrow>
                ext_data e k =
                  (case getExtension example_store ''acme.bar'' of
                     Some e0 \<Rightarrow> ext_data e0 k | None \<Rightarrow> None)"
    by blast
  have "ext_data e ''version'' = Some (Str ''1.0'')"
    using kept [THEN spec, of "''version''"] by (simp add: example_store_bar)
  moreover have "ext_data e ''description'' = Some (Str ''x'')"
    using given [THEN spec, THEN spec, of "''description''" "Str ''x''"] by simp
  moreover have "ext_data e ''installed'' = Some (Bool True)"
    using given [THEN spec, THEN spec, of "''installed''" "Bool True"] by simp
  ultimately show ?thesis using dj e reachable_init [of Inr "[]"] by blast
qed

subsection \<open>The debounce timer\<close>

lemma set_query_mutation:
  "q \<noteq> p_query s \<Longrightarrow>
   set_query s q =
     s\<lparr>p_query := q, timer := Some 150, onDidChangeQueryEmitter := onDidChangeQueryEmitter s @ [q]\<rparr>"
  by (simp add: set_query_def onDidChangeQueryEmitter_fire_def updateSearchResult_def Let_def)

lemma elapse_within: "timer s = Some r \<Longrightarrow> dt < r \<Longrightarrow> elapse s dt = s\<lparr>timer := Some (r - dt)\<rparr>"
  by (simp add: elapse_def)

lemma elapse_idle: "timer s = None \<Longrightarrow> elapse s dt = s"
  by (simp add: elapse_def)

lemma elapse_fires:
  "tokens_ok s \<Longrightarrow> timer s = Some r \<Longrightarrow> r \<le> dt \<Longrightarrow>
   elapse s dt =
     s\<lparr>timer := None,
       cancelled := insert (searchCancellationTokenSource s) (cancelled s),
       searchCancellationTokenSource := sources s,
       sources := Suc (sources s),
       api := api s @ [Search (p_query s)]\<rparr>"
proof -
  assume ok: "tokens_ok s" and t: "timer s = Some r" and le: "r \<le> dt"
  have "tokens_ok (s\<lparr>timer := None\<rparr>)" using ok by simp
  then show ?thesis
    using t le by (simp add: elapse_def updateSearchResult_fn_eq)
qed

lemma writes_burst:
  "timer t = Some 150 \<Longrightarrow> mutations (p_query t) ws \<Longrightarrow>
   writes t ws =
     t\<lparr>p_query := last (p_query t # map snd ws),
       onDidChangeQueryEmitter := onDidChangeQueryEmitter t @ map snd ws\<rparr>"
proof (induction ws arbitrary: t)
  case Nil
  then show ?case by simp
next
  case (Cons w ws)
  obtain dt q where w: "w = (dt, q)" by (cases w)
  from Cons.prems w have dt: "dt < 150" and q: "q \<noteq> p_query t" and m: "mutations q ws"
    by simp_all
  let ?t' = "t\<lparr>p_query := q, timer := Some 150,
               onDidChangeQueryEmitter := onDidChangeQueryEmitter t @ [q]\<rparr>"
  have e: "elapse t dt = t\<lparr>timer := Some (150 - dt)\<rparr>"
    using Cons.prems(1) dt by (rule elapse_within)
  have "set_query (elapse t dt) q = ?t'"
    using q by (simp add: e set_query_mutation)
  then have "writes t (w # ws) = writes ?t' ws"
    by (simp add: w)
  also have "\<dots> = ?t'\<lparr>p_query := last (p_query ?t' # map snd ws),
       onDidChangeQueryEmitter := onDidChangeQueryEmitter ?t' @ map snd ws\<rparr>"
    using m by (intro Cons.IH) simp_all
  also have "\<dots> = t\<lparr>p_query := last (p_query t # map snd (w # ws)),
       onDidChangeQueryEmitter := onDidChangeQueryEmitter t @ map snd (w # ws)\<rparr>"
    using Cons.prems(1) by (cases t) (simp add: w)
  finally show ?case .
qed

lemma searches_upd [simp]:
  "searches (s\<lparr>p_query := a\<rparr>) = searches s"
  "searches (s\<lparr>timer := b\<rparr>) = searches s"
  "searches (s\<lparr>onDidChangeQueryEmitter := c\<rparr>) = searches s"
  "searches (s\<lparr>cancelled := d\<rparr>) = searches s"
  "searches (s\<lparr>searchCancellationTokenSource := e\<rparr>) = searches s"
  "searches (s\<lparr>sources := f\<rparr>) = searches s"
  "searches (s\<lparr>api := api s @ [Search q]\<rparr>) = searches s @ [q]"
  by (simp_all add: searches_def)


lemma searches_init: "searches (init []) = []"
  by (simp add: searches_def run_defs)


subsection \<open>Debounced search\<close>

text \<open>
  C9. Let the query be changed to \<open>q0\<close>, and then changed again any number of times, each
  time less than 150 time units after the change before. No search cycle executes during
  these changes, nor while less than 150 time units have passed since the last of them.
  When 150 time units or more have passed, exactly one search cycle has executed; its
  parameter is the last value written, and no further cycle follows however long one
  waits. (The state is any state with well-formed tokens, as every reachable state is.)
\<close>

theorem debounce_coalesces:
  assumes "tokens_ok s" and "q0 \<noteq> p_query s" and "mutations q0 ws"
  shows "searches (writes (set_query s q0) ws) = searches s \<and>
         (\<forall>dt. dt < 150 \<longrightarrow> searches (elapse (writes (set_query s q0) ws) dt) = searches s) \<and>
         (\<forall>dt. 150 \<le> dt \<longrightarrow>
            searches (elapse (writes (set_query s q0) ws) dt) =
              searches s @ [last (q0 # map snd ws)] \<and>
            (\<forall>dt'. elapse (elapse (writes (set_query s q0) ws) dt) dt' =
                    elapse (writes (set_query s q0) ws) dt))"
proof -
  let ?t = "set_query s q0"
  let ?n = "writes ?t ws"
  have t: "?t = s\<lparr>p_query := q0, timer := Some 150,
                   onDidChangeQueryEmitter := onDidChangeQueryEmitter s @ [q0]\<rparr>"
    using assms(2) by (rule set_query_mutation)
  have n: "?n = ?t\<lparr>p_query := last (p_query ?t # map snd ws),
                  onDidChangeQueryEmitter := onDidChangeQueryEmitter ?t @ map snd ws\<rparr>"
    using assms(3) by (intro writes_burst) (simp_all add: t)
  have timer: "timer ?n = Some 150" by (subst n) (simp add: t)
  have query: "p_query ?n = last (q0 # map snd ws)" by (subst n) (simp add: t)
  have ok: "tokens_ok ?n" using assms(1) by (subst n) (simp add: t)
  have 1: "searches ?n = searches s" by (subst n) (simp add: t)
  have 2: "\<forall>dt. dt < 150 \<longrightarrow> searches (elapse ?n dt) = searches s"
    using 1 by (simp add: elapse_within [OF timer])
  have 3: "\<forall>dt. 150 \<le> dt \<longrightarrow>
            searches (elapse ?n dt) = searches s @ [last (q0 # map snd ws)] \<and>
            (\<forall>dt'. elapse (elapse ?n dt) dt' = elapse ?n dt)"
  proof (intro allI impI)
    fix dt :: nat assume le: "150 \<le> dt"
    note f = elapse_fires [OF ok timer le]
    have "searches (elapse ?n dt) = searches ?n @ [p_query ?n]"
      by (simp add: f searches_def)
    then have a: "searches (elapse ?n dt) = searches s @ [last (q0 # map snd ws)]"
      by (simp only: 1 query)
    have "timer (elapse ?n dt) = None" by (simp add: f)
    then have b: "\<forall>dt'. elapse (elapse ?n dt) dt' = elapse ?n dt"
      by (simp add: elapse_idle)
    from a b show "searches (elapse ?n dt) = searches s @ [last (q0 # map snd ws)] \<and>
            (\<forall>dt'. elapse (elapse ?n dt) dt' = elapse ?n dt)" by blast
  qed
  from 1 2 3 show ?thesis by blast
qed


theorem debounce_coalesces_witness:
  "tokens_ok (init []) \<and> ''f'' \<noteq> p_query (init []) \<and>
   mutations ''f'' [(50, ''fo''), (149, ''foo'')] \<and>
   searches (writes (set_query (init []) ''f'') [(50, ''fo''), (149, ''foo'')]) = [] \<and>
   searches (elapse (writes (set_query (init []) ''f'') [(50, ''fo''), (149, ''foo'')]) 149) = [] \<and>
   searches (elapse (writes (set_query (init []) ''f'') [(50, ''fo''), (149, ''foo'')]) 150) =
     [''foo'']"
proof -
  have q: "''f'' \<noteq> p_query (init [])" by (simp add: run_defs)
  have m: "mutations ''f'' [(50, ''fo''), (149, ''foo'')]" by simp
  note T = debounce_coalesces [OF tokens_ok_init q m]
  from T have a: "searches (writes (set_query (init []) ''f'') [(50, ''fo''), (149, ''foo'')]) = []"
    by (simp add: searches_init)
  from T have "searches (elapse (writes (set_query (init []) ''f'') [(50, ''fo''), (149, ''foo'')]) 149) =
      searches (init [])"
    by simp
  then have b: "searches (elapse (writes (set_query (init []) ''f'') [(50, ''fo''), (149, ''foo'')]) 149) = []"
    by (simp add: searches_init)
  from T have "searches (elapse (writes (set_query (init []) ''f'') [(50, ''fo''), (149, ''foo'')]) 150) =
      searches (init []) @ [last (''f'' # map snd [(50, ''fo''), (149::nat, ''foo'')])]"
    by simp
  then have c: "searches (elapse (writes (set_query (init []) ''f'') [(50, ''fo''), (149, ''foo'')]) 150) =
     [''foo'']"
    by (simp add: searches_init)
  from tokens_ok_init q m a b c show ?thesis by blast
qed

subsection \<open>Records are never removed\<close>

lemma upsert_keeps: "extensions s j \<noteq> None \<Longrightarrow> extensions (upsert s i d) j \<noteq> None"
  by (simp add: upsert_extensions)

lemma update_at_keeps: "extensions s j \<noteq> None \<Longrightarrow> extensions (update_at s i d) j \<noteq> None"
  by (simp add: update_at_def split: option.splits)

lemma doChange_settle_extensions:
  "extensions (fst (doChange_settle tok (s, r))) = extensions s"
  using doChange_settle_fst [of tok s r] by auto

lemma search_resume_keeps:
  assumes j: "extensions s j \<noteq> None"
  shows "extensions (fst (doUpdateSearchResult_resume s tok resp)) j \<noteq> None"
proof (cases resp)
  case (Inl e)
  then show ?thesis
    using j
    by (simp add: doUpdateSearchResult_resume_def doUpdateSearchResult_task_def doChange_settle_def)
next
  case (Inr result)
  obtain s1 sr where l: "search_loop result (s, []) = (s1, sr)"
    by (cases "search_loop result (s, [])")
  have "extensions s1 j \<noteq> None"
    using search_loop_extensions [of result s "[]" j] j by (simp add: l)
  then show ?thesis
    using j
    by (simp add: doUpdateSearchResult_resume_def doUpdateSearchResult_task_def Inr l
        doChange_settle_extensions)
qed

lemma refresh_resume_keeps:
  "extensions s j \<noteq> None \<Longrightarrow> extensions (fst (refresh_resume s i resp)) j \<noteq> None"
  by (cases resp) (simp_all add: refresh_resume_def Let_def upsert_keeps split: option.splits)

lemma resolve_resume_keeps:
  "extensions s j \<noteq> None \<Longrightarrow> extensions (fst (resolve_resume s i resp)) j \<noteq> None"
proof -
  assume j: "extensions s j \<noteq> None"
  obtain s1 r where rr: "refresh_resume s i resp = (s1, r)"
    by (cases "refresh_resume s i resp")
  have "extensions s1 j \<noteq> None"
    using refresh_resume_keeps [OF j, of i resp] by (simp add: rr)
  then show ?thesis
    by (simp add: resolve_resume_def rr doChange_settle_def split: sum.splits option.splits)
qed

lemma resolve_readme_keeps:
  assumes "extensions s j \<noteq> None"
  shows "extensions (resolve_readme cr s i resp) j \<noteq> None"
proof -
  have "\<And>d. extensions (update_at s i d) j \<noteq> None"
    using assms by (rule update_at_keeps)
  then show ?thesis
    using assms by (auto simp add: resolve_readme_def split: sum.splits)
qed

lemma resolve_resume_readme_extensions:
  "extensions (fst (resolve_resume_readme cr s i resp)) = extensions (resolve_readme cr s i resp)"
  by (simp add: resolve_resume_readme_def Let_def doChange_settle_extensions split: option.splits)

lemma resolve_resume_readme_keeps:
  "extensions s j \<noteq> None \<Longrightarrow> extensions (fst (resolve_resume_readme cr s i resp)) j \<noteq> None"
  by (simp add: resolve_resume_readme_extensions resolve_readme_keeps)

lemma updateInstalled_keeps:
  "extensions s j \<noteq> None \<Longrightarrow> extensions (fst (updateInstalled s ps)) j \<noteq> None"
proof -
  assume j: "extensions s j \<noteq> None"
  obtain s1 acc where l: "updateInstalled_loop ps (s, []) = (s1, acc)"
    by (cases "updateInstalled_loop ps (s, [])")
  have "extensions s1 j \<noteq> None"
    using updateInstalled_loop_extensions [of ps s "[]" j] j by (simp add: l)
  then show ?thesis
    by (simp add: updateInstalled_eq updateInstalled_task_def l foldl_refresh)
qed

lemma step_keeps: "extensions s j \<noteq> None \<Longrightarrow> extensions (step cr s ev) j \<noteq> None"
proof (cases ev)
  case (SetQuery q)
  then show "extensions s j \<noteq> None \<Longrightarrow> ?thesis"
    by (simp add: set_query_def onDidChangeQueryEmitter_fire_def updateSearchResult_def Let_def)
next
  case (Elapse dt)
  then show "extensions s j \<noteq> None \<Longrightarrow> ?thesis"
    by (simp add: elapse_def updateSearchResult_fn_def doUpdateSearchResult_def Let_def
        split: option.splits)
next
  case (PluginsChanged ps)
  then show "extensions s j \<noteq> None \<Longrightarrow> ?thesis" by (simp add: updateInstalled_keeps)
next
  case (Resolve i)
  then show "extensions s j \<noteq> None \<Longrightarrow> ?thesis" by (simp add: resolve_def refresh_def)
next
  case (SearchSettled n resp)
  then show "extensions s j \<noteq> None \<Longrightarrow> ?thesis" by (simp add: search_resume_keeps)
next
  case (RefreshSettled i resp)
  then show "extensions s j \<noteq> None \<Longrightarrow> ?thesis" by (simp add: refresh_resume_keeps)
next
  case (ResolveSettled i resp)
  then show "extensions s j \<noteq> None \<Longrightarrow> ?thesis" by (simp add: resolve_resume_keeps)
next
  case (ReadmeSettled i resp)
  then show "extensions s j \<noteq> None \<Longrightarrow> ?thesis" by (simp add: resolve_resume_readme_keeps)
qed

lemma run_keeps: "extensions s j \<noteq> None \<Longrightarrow> extensions (run cr s evs) j \<noteq> None"
proof (induction evs arbitrary: s)
  case Nil
  then show ?case by (simp add: run_def)
next
  case (Cons ev evs)
  have "run cr s (ev # evs) = run cr (step cr s ev) evs" by (simp add: run_def)
  then show ?case using Cons.IH [OF step_keeps [OF Cons.prems]] by simp
qed

lemma refresh_resume_success:
  "refresh_resume s i (Inr d) =
     (upsert s i d,
      Inr (Some (update (case extensions s i of Some e \<Rightarrow> e | None \<Rightarrow> extensionFactory i) d)))"
  by (simp add: refresh_resume_def Let_def getExtension_def upsert_extensions)

lemma resolve_resume_success:
  "extensions (fst (resolve_resume s i (Inr d))) i =
     Some (update (case extensions s i of Some e \<Rightarrow> e | None \<Rightarrow> extensionFactory i) d) \<and>
   (snd (resolve_resume s i (Inr d)) = None \<or>
    snd (resolve_resume s i (Inr d)) =
      Some (Inr (Some (update (case extensions s i of Some e \<Rightarrow> e | None \<Rightarrow> extensionFactory i) d))))"
  by (simp add: resolve_resume_def refresh_resume_success doChange_settle_def upsert_extensions
      split: option.splits)

lemma readme_failure:
  assumes "getExtension s i = Some e"
  shows "resolve_resume_readme cr s i (Inl (VSXResponseError 404)) =
           (s\<lparr>onDidChangeEmitter := Suc (onDidChangeEmitter s)\<rparr>, Inr (Some e))"
    and "\<not> is404 err \<Longrightarrow>
         resolve_resume_readme cr s i (Inl err) =
           (s\<lparr>console := console s @ [FailedToCompileReadme i err],
              onDidChangeEmitter := Suc (onDidChangeEmitter s)\<rparr>, Inr (Some e))"
    and "cr raw = Inl err \<Longrightarrow> \<not> is404 err \<Longrightarrow>
         resolve_resume_readme cr s i (Inr raw) =
           (s\<lparr>console := console s @ [FailedToCompileReadme i err],
              onDidChangeEmitter := Suc (onDidChangeEmitter s)\<rparr>, Inr (Some e))"
  using assms
  by (simp_all add: resolve_resume_readme_def resolve_readme_def Let_def getExtension_def
      is404_def doChange_settle_def)


lemma upsert_fields:
  "api (upsert s i d) = api s"
  "console (upsert s i d) = console s"
  "onDidChangeEmitter (upsert s i d) = onDidChangeEmitter s"
  "p_searchResult (upsert s i d) = p_searchResult s"
  "p_installed (upsert s i d) = p_installed s"
  by (subst upsert_frame, simp)+

lemma example_detail_resume:
  "resolve_resume s ''acme.foo'' (Inr example_detail) =
     ((upsert s ''acme.foo'' example_detail)
        \<lparr>api := api s @ [FetchText ''https://open-vsx.org/api/acme/foo/file/README.md'']\<rparr>, None)"
  by (simp add: resolve_resume_def refresh_resume_success readmeUrl_def update_def
      example_detail_def upsert_fields)

lemma example_resolved_readme:
  "\<exists>e. extensions example_resolved ''acme.foo'' = Some e \<and>
       ext_data e ''readme'' = Some (Str ''<p>old</p>'')"
  by (simp add: example_resolved_def example_detail_resume initial_def
      resolve_resume_readme_extensions resolve_readme_def example_compileReadme_def
      update_at_def upsert_extensions update_def)


subsection \<open>Resolve when the readme fetch fails\<close>

text \<open>
  C8, as amended. When the detail fetch of \<^verbatim>\<open>resolve\<close> succeeds, \<^verbatim>\<open>resolve\<close> either
  completes with the record or awaits the readme; it does not fail. Whatever happens
  before the readme fetch settles, the record is still in the store then, and: a 404 of
  the readme fetch is swallowed (nothing is logged), the record is left as it is, its
  readme field included, and \<^verbatim>\<open>resolve\<close> returns it and fires the change event; any
  other failure of the fetch, and any failure of the markdown pipeline other than a 404,
  is logged, and \<^verbatim>\<open>resolve\<close> returns the record all the same.
\<close>

theorem readme_failure_tolerated:
  "(snd (resolve_resume s i (Inr d)) = None \<or>
    (\<exists>e. snd (resolve_resume s i (Inr d)) = Some (Inr (Some e)))) \<and>
   (\<exists>e. getExtension (run cr (fst (resolve_resume s i (Inr d))) evs) i = Some e \<and>
      resolve_resume_readme cr (run cr (fst (resolve_resume s i (Inr d))) evs) i
          (Inl (VSXResponseError 404)) =
        ((run cr (fst (resolve_resume s i (Inr d))) evs)
           \<lparr>onDidChangeEmitter :=
              Suc (onDidChangeEmitter (run cr (fst (resolve_resume s i (Inr d))) evs))\<rparr>,
         Inr (Some e)) \<and>
      (\<not> is404 err \<longrightarrow>
         resolve_resume_readme cr (run cr (fst (resolve_resume s i (Inr d))) evs) i (Inl err) =
           ((run cr (fst (resolve_resume s i (Inr d))) evs)
              \<lparr>console :=
                 console (run cr (fst (resolve_resume s i (Inr d))) evs) @
                 [FailedToCompileReadme i err],
               onDidChangeEmitter :=
                 Suc (onDidChangeEmitter (run cr (fst (resolve_resume s i (Inr d))) evs))\<rparr>,
            Inr (Some e))) \<and>
      (cr raw = Inl err \<and> \<not> is404 err \<longrightarrow>
         resolve_resume_readme cr (run cr (fst (resolve_resume s i (Inr d))) evs) i (Inr raw) =
           ((run cr (fst (resolve_resume s i (Inr d))) evs)
              \<lparr>console :=
                 console (run cr (fst (resolve_resume s i (Inr d))) evs) @
                 [FailedToCompileReadme i err],
               onDidChangeEmitter :=
                 Suc (onDidChangeEmitter (run cr (fst (resolve_resume s i (Inr d))) evs))\<rparr>,
            Inr (Some e))))"
proof -
  let ?s1 = "run cr (fst (resolve_resume s i (Inr d))) evs"
  have A: "snd (resolve_resume s i (Inr d)) = None \<or>
    (\<exists>e. snd (resolve_resume s i (Inr d)) = Some (Inr (Some e)))"
    using resolve_resume_success [of s i d] by blast
  have "extensions (fst (resolve_resume s i (Inr d))) i \<noteq> None"
    using resolve_resume_success [of s i d] by simp
  then have "extensions ?s1 i \<noteq> None" by (rule run_keeps)
  then obtain e where e: "getExtension ?s1 i = Some e"
    by (auto simp add: getExtension_def)
  have R1: "resolve_resume_readme cr ?s1 i (Inl (VSXResponseError 404)) =
      (?s1\<lparr>onDidChangeEmitter := Suc (onDidChangeEmitter ?s1)\<rparr>, Inr (Some e))"
    using e by (rule readme_failure(1))
  have R2: "\<not> is404 err \<longrightarrow>
      resolve_resume_readme cr ?s1 i (Inl err) =
        (?s1\<lparr>console := console ?s1 @ [FailedToCompileReadme i err],
            onDidChangeEmitter := Suc (onDidChangeEmitter ?s1)\<rparr>, Inr (Some e))"
    using readme_failure(2) [OF e] by blast
  have R3: "cr raw = Inl err \<and> \<not> is404 err \<longrightarrow>
      resolve_resume_readme cr ?s1 i (Inr raw) =
        (?s1\<lparr>console := console ?s1 @ [FailedToCompileReadme i err],
            onDidChangeEmitter := Suc (onDidChangeEmitter ?s1)\<rparr>, Inr (Some e))"
    using readme_failure(3) [OF e] by blast
  from A e R1 R2 R3 show ?thesis by blast
qed

theorem readme_failure_tolerated_witness:
  "snd (resolve_resume initial ''acme.foo'' (Inr example_detail)) = None \<and>
   getExtension (fst (resolve_resume initial ''acme.foo'' (Inr example_detail))) ''acme.foo'' \<noteq> None \<and>
   ext_data
     (the (getExtension (fst (resolve_resume initial ''acme.foo'' (Inr example_detail)))
             ''acme.foo'')) ''readme'' = None \<and>
   resolve_resume_readme example_compileReadme
       (fst (resolve_resume initial ''acme.foo'' (Inr example_detail)))
       ''acme.foo'' (Inl (VSXResponseError 404)) =
     ((fst (resolve_resume initial ''acme.foo'' (Inr example_detail)))\<lparr>onDidChangeEmitter := 1\<rparr>,
      Inr (getExtension (fst (resolve_resume initial ''acme.foo'' (Inr example_detail)))
             ''acme.foo'')) \<and>
   \<not> is404 (Error ''timeout'') \<and>
   resolve_resume_readme example_compileReadme
       (fst (resolve_resume initial ''acme.foo'' (Inr example_detail)))
       ''acme.foo'' (Inl (Error ''timeout'')) =
     ((fst (resolve_resume initial ''acme.foo'' (Inr example_detail)))
        \<lparr>console := [FailedToCompileReadme ''acme.foo'' (Error ''timeout'')],
          onDidChangeEmitter := 1\<rparr>,
      Inr (getExtension (fst (resolve_resume initial ''acme.foo'' (Inr example_detail)))
             ''acme.foo'')) \<and>
   example_compileReadme [] = Inl (Error ''empty'') \<and>
   resolve_resume_readme example_compileReadme
       (fst (resolve_resume initial ''acme.foo'' (Inr example_detail)))
       ''acme.foo'' (Inr []) =
     ((fst (resolve_resume initial ''acme.foo'' (Inr example_detail)))
        \<lparr>console := [FailedToCompileReadme ''acme.foo'' (Error ''empty'')],
          onDidChangeEmitter := 1\<rparr>,
      Inr (getExtension (fst (resolve_resume initial ''acme.foo'' (Inr example_detail)))
             ''acme.foo''))"
proof -
  let ?s = "fst (resolve_resume initial ''acme.foo'' (Inr example_detail))"
  have run0: "run example_compileReadme ?s [] = ?s" by (simp add: run_def)
  have n1: "\<not> is404 (Error ''timeout'')" and n2: "\<not> is404 (Error ''empty'')"
    by (simp_all add: is404_def)
  have cr: "example_compileReadme [] = Inl (Error ''empty'')"
    by (simp add: example_compileReadme_def)
  have step: "resolve_resume initial ''acme.foo'' (Inr example_detail) =
     ((upsert initial ''acme.foo'' example_detail)
        \<lparr>api := api initial @
           [FetchText ''https://open-vsx.org/api/acme/foo/file/README.md'']\<rparr>, None)"
    by (rule example_detail_resume)
  have a: "snd (resolve_resume initial ''acme.foo'' (Inr example_detail)) = None"
    by (simp add: step)
  have c0: "console ?s = []" and f0: "onDidChangeEmitter ?s = 0"
    by (simp_all add: step upsert_fields) (simp_all add: initial_def)
  have g0: "getExtension ?s ''acme.foo'' = Some (update (extensionFactory ''acme.foo'') example_detail)"
    by (simp add: step getExtension_def upsert_extensions) (simp add: initial_def)
  have unset: "ext_data (the (getExtension ?s ''acme.foo'')) ''readme'' = None"
    by (simp only: g0 option.sel) (simp add: update_def extensionFactory_def example_detail_def)
  note T1 = readme_failure_tolerated [where s = initial and i = "''acme.foo''"
      and d = example_detail and cr = example_compileReadme and evs = "[]"
      and err = "Error ''timeout''" and raw = "[]"]
  note T2 = readme_failure_tolerated [where s = initial and i = "''acme.foo''"
      and d = example_detail and cr = example_compileReadme and evs = "[]"
      and err = "Error ''empty''" and raw = "[]"]
  from T1 n1 obtain e where e: "getExtension ?s ''acme.foo'' = Some e"
    and r1: "resolve_resume_readme example_compileReadme ?s ''acme.foo''
               (Inl (VSXResponseError 404)) =
             (?s\<lparr>onDidChangeEmitter := Suc (onDidChangeEmitter ?s)\<rparr>, Inr (Some e))"
    and r2: "resolve_resume_readme example_compileReadme ?s ''acme.foo'' (Inl (Error ''timeout'')) =
             (?s\<lparr>console := console ?s @ [FailedToCompileReadme ''acme.foo'' (Error ''timeout'')],
                 onDidChangeEmitter := Suc (onDidChangeEmitter ?s)\<rparr>, Inr (Some e))"
    unfolding run0 by blast
  from T2 n2 cr e have r3:
      "resolve_resume_readme example_compileReadme ?s ''acme.foo'' (Inr []) =
         (?s\<lparr>console := console ?s @ [FailedToCompileReadme ''acme.foo'' (Error ''empty'')],
             onDidChangeEmitter := Suc (onDidChangeEmitter ?s)\<rparr>, Inr (Some e))"
    unfolding run0 by auto
  have d: "getExtension ?s ''acme.foo'' \<noteq> None" by (simp only: e) simp
  have r1': "resolve_resume_readme example_compileReadme ?s ''acme.foo''
               (Inl (VSXResponseError 404)) =
             (?s\<lparr>onDidChangeEmitter := 1\<rparr>, Inr (getExtension ?s ''acme.foo''))"
    by (simp only: r1 e f0) simp
  have r2': "resolve_resume_readme example_compileReadme ?s ''acme.foo'' (Inl (Error ''timeout'')) =
             (?s\<lparr>console := [FailedToCompileReadme ''acme.foo'' (Error ''timeout'')],
                 onDidChangeEmitter := 1\<rparr>, Inr (getExtension ?s ''acme.foo''))"
    by (simp only: r2 e f0 c0) simp
  have r3': "resolve_resume_readme example_compileReadme ?s ''acme.foo'' (Inr []) =
             (?s\<lparr>console := [FailedToCompileReadme ''acme.foo'' (Error ''empty'')],
                 onDidChangeEmitter := 1\<rparr>, Inr (getExtension ?s ''acme.foo''))"
    by (simp only: r3 e f0 c0) simp
  from a d unset r1' n1 r2' cr r3' show ?thesis by blast
qed


text \<open>
  The readme field is not always unset after a 404: a record whose readme an earlier
  \<^verbatim>\<open>resolve\<close> has stored keeps it.
\<close>

theorem readme_left_unset_counterexample:
  "snd (resolve_resume example_resolved ''acme.foo'' (Inr example_detail)) = None \<and>
   snd (resolve_resume_readme example_compileReadme
          (fst (resolve_resume example_resolved ''acme.foo'' (Inr example_detail)))
          ''acme.foo'' (Inl (VSXResponseError 404))) =
     Inr (getExtension (fst (resolve_resume example_resolved ''acme.foo'' (Inr example_detail)))
            ''acme.foo'') \<and>
   getExtension (fst (resolve_resume example_resolved ''acme.foo'' (Inr example_detail)))
     ''acme.foo'' \<noteq> None \<and>
   ext_data
     (the (getExtension (fst (resolve_resume example_resolved ''acme.foo'' (Inr example_detail)))
             ''acme.foo''))
     ''readme'' = Some (Str ''<p>old</p>'')"
proof -
  obtain e where e: "extensions example_resolved ''acme.foo'' = Some e"
    and r: "ext_data e ''readme'' = Some (Str ''<p>old</p>'')"
    using example_resolved_readme by blast
  let ?s = "fst (resolve_resume example_resolved ''acme.foo'' (Inr example_detail))"
  have step: "resolve_resume example_resolved ''acme.foo'' (Inr example_detail) =
     ((upsert example_resolved ''acme.foo'' example_detail)
        \<lparr>api := api example_resolved @
           [FetchText ''https://open-vsx.org/api/acme/foo/file/README.md'']\<rparr>, None)"
    by (rule example_detail_resume)
  have a: "snd (resolve_resume example_resolved ''acme.foo'' (Inr example_detail)) = None"
    by (simp add: step)
  have g: "getExtension ?s ''acme.foo'' = Some (update e example_detail)"
    by (simp add: step getExtension_def upsert_extensions e)
  have b: "snd (resolve_resume_readme example_compileReadme ?s ''acme.foo''
                  (Inl (VSXResponseError 404))) = Inr (getExtension ?s ''acme.foo'')"
    by (simp only: readme_failure(1) [OF g] g snd_conv)
  have c: "ext_data (the (getExtension ?s ''acme.foo'')) ''readme'' = Some (Str ''<p>old</p>'')"
    using r by (simp only: g option.sel) (simp add: update_def example_detail_def map_add_def)
  have d: "getExtension ?s ''acme.foo'' \<noteq> None"
    by (simp only: g) simp
  from a b d c show ?thesis by blast
qed

subsection \<open>Outcomes of refresh and resolve\<close>

lemma resolve_absent_fails:
  "snd (refresh_resume s i resp) = Inr None \<Longrightarrow>
   resolve_resume s i resp =
     (fst (refresh_resume s i resp),
      Some (Inl (Error (''Failed to resolve '' @ i @ '' extension.''))))"
  by (cases "refresh_resume s i resp")
     (simp add: resolve_resume_def doChange_settle_def)

lemma refresh_resume_fulfilled: "\<exists>r. snd (refresh_resume s i resp) = Inr r"
  by (cases resp) (simp_all add: refresh_resume_def Let_def split: option.splits)

lemma search_failure: "doUpdateSearchResult_resume s tok (Inl err) = (s, Inl err)"
  by (simp add: doUpdateSearchResult_resume_def doUpdateSearchResult_task_def doChange_settle_def)


lemma resolve_fails_only_when_absent:
  "snd (resolve_resume s i resp) = Some (Inl e) \<Longrightarrow> snd (refresh_resume s i resp) = Inr None"
proof -
  assume f: "snd (resolve_resume s i resp) = Some (Inl e)"
  obtain s1 r where rr: "refresh_resume s i resp = (s1, r)"
    by (cases "refresh_resume s i resp")
  obtain x where x: "r = Inr x"
    using refresh_resume_fulfilled [of s i resp] by (auto simp add: rr)
  show ?thesis
  proof (cases x)
    case None
    then show ?thesis by (simp add: rr x)
  next
    case (Some ext)
    then have "snd (resolve_resume s i resp) \<noteq> Some (Inl e)"
      by (simp add: resolve_resume_def rr x doChange_settle_def split: option.splits)
    with f show ?thesis by simp
  qed
qed

lemma resolve_resume_readme_fulfilled: "\<exists>r. snd (resolve_resume_readme cr s i resp) = Inr r"
  by (simp add: resolve_resume_readme_def Let_def doChange_settle_def split: option.splits)


subsection \<open>A failed search\<close>

text \<open>
  C2. A search cycle whose registry call fails leaves the store and the search result set
  unchanged, but the failure is not caught: nothing is logged, and the promise of
  \<^verbatim>\<open>doUpdateSearchResult\<close> is rejected with the error of the registry call.
\<close>

theorem search_failure_not_caught:
  "doUpdateSearchResult_resume example_cycle (Token 1) (Inl (Error ''ECONNREFUSED'')) =
     (example_cycle, Inl (Error ''ECONNREFUSED'')) \<and>
   console example_cycle = [] \<and>
   \<not> isCancellationRequested example_cycle (Token 1)"
  by (simp add: search_failure example_cycle_eq initial_def)


subsection \<open>Resolve when refresh yields nothing\<close>

text \<open>
  C7. When refresh yields nothing, \<^verbatim>\<open>resolve\<close> is rejected with the error
  \<^verbatim>\<open>Failed to resolve <id> extension.\<close> and fires no change event; this is so for an id
  with no record whose lookup answers 404. \<^verbatim>\<open>resolve\<close> is rejected in no other case, and
  refresh and the reconciliation of the installed set are never rejected. A search cycle
  whose registry call fails is rejected too.
\<close>

theorem resolve_fails_and_search_fails:
  "(snd (refresh_resume s i resp) = Inr None \<longrightarrow>
      resolve_resume s i resp =
        (fst (refresh_resume s i resp),
         Some (Inl (Error (''Failed to resolve '' @ i @ '' extension.''))))) \<and>
   (getExtension s i = None \<longrightarrow>
      refresh_resume s i (Inl (VSXResponseError 404)) = (s, Inr None)) \<and>
   (snd (resolve_resume s i resp) = Some (Inl e) \<longrightarrow> snd (refresh_resume s i resp) = Inr None) \<and>
   (\<exists>r. snd (resolve_resume_readme cr s i resp') = Inr r) \<and>
   (\<exists>r. snd (refresh_resume s i resp) = Inr r) \<and>
   snd (updateInstalled s plugins) = Inr (Some ()) \<and>
   snd (doUpdateSearchResult_resume s tok (Inl err)) = Inl err"
proof -
  have 1: "snd (refresh_resume s i resp) = Inr None \<longrightarrow>
      resolve_resume s i resp =
        (fst (refresh_resume s i resp),
         Some (Inl (Error (''Failed to resolve '' @ i @ '' extension.''))))"
    using resolve_absent_fails [of s i resp] by blast
  have 2: "getExtension s i = None \<longrightarrow>
      refresh_resume s i (Inl (VSXResponseError 404)) = (s, Inr None)"
    by (simp add: refresh_resume_def is404_def)
  have 3: "snd (resolve_resume s i resp) = Some (Inl e) \<longrightarrow> snd (refresh_resume s i resp) = Inr None"
    using resolve_fails_only_when_absent [of s i resp e] by blast
  have 4: "snd (updateInstalled s plugins) = Inr (Some ())"
    by (simp add: updateInstalled_eq)
  have 5: "snd (doUpdateSearchResult_resume s tok (Inl err)) = Inl err"
    by (simp add: search_failure)
  from 1 2 3 4 5 resolve_resume_readme_fulfilled [of cr s i resp']
    refresh_resume_fulfilled [of s i resp]
  show ?thesis by blast
qed


theorem resolve_fails_and_search_fails_witness:
  "getExtension example_store ''acme.baz'' = None \<and>
   snd (refresh_resume example_store ''acme.baz'' (Inl (VSXResponseError 404))) = Inr None \<and>
   resolve_resume example_store ''acme.baz'' (Inl (VSXResponseError 404)) =
     (example_store, Some (Inl (Error ''Failed to resolve acme.baz extension.''))) \<and>
   snd (doUpdateSearchResult_resume example_cycle (Token 1) (Inl (VSXResponseError 503))) =
     Inl (VSXResponseError 503)"
proof -
  note T = resolve_fails_and_search_fails [where s = example_store and i = "''acme.baz''"
      and resp = "Inl (VSXResponseError 404)"]
  note U = resolve_fails_and_search_fails [where s = example_cycle and tok = "Token 1"
      and err = "VSXResponseError 503"]
  from T example_store_baz
  have r: "refresh_resume example_store ''acme.baz'' (Inl (VSXResponseError 404)) =
      (example_store, Inr None)"
    by blast
  then have a: "snd (refresh_resume example_store ''acme.baz'' (Inl (VSXResponseError 404))) = Inr None"
    by simp
  from T a have "resolve_resume example_store ''acme.baz'' (Inl (VSXResponseError 404)) =
        (fst (refresh_resume example_store ''acme.baz'' (Inl (VSXResponseError 404))),
         Some (Inl (Error (''Failed to resolve '' @ ''acme.baz'' @ '' extension.''))))"
    by blast
  then have b: "resolve_resume example_store ''acme.baz'' (Inl (VSXResponseError 404)) =
     (example_store, Some (Inl (Error ''Failed to resolve acme.baz extension.'')))"
    by (simp add: r)
  from U have c: "snd (doUpdateSearchResult_resume example_cycle (Token 1) (Inl (VSXResponseError 503))) =
     Inl (VSXResponseError 503)"
    by blast
  from example_store_baz a b c show ?thesis by blast
qed

end
